theory Spec2Isabelle
  imports Main "HOL-Library.Word" "HOL-Library.Sublist" "HOL-Library.Multiset"
begin

section \<open>Data model of pkg/runner\<close>

text \<open>
  Go's \<open>int64\<close> is a 64-bit word read as a signed number: the runner only compares
  capacities (\<open><s\<close>, \<open>\<le>s\<close>) and never computes with them.
\<close>

type_synonym int64 = "64 word"

text \<open>
  \<open>schemas.Capacity\<close>, as \<open>makeCapacityStruct\<close> fills it. The fields \<open>Min\<close>, \<open>Max\<close>
  and \<open>Desired\<close> carry a suffix, since \<open>Min\<close> and \<open>Max\<close> are constants of HOL.
\<close>

record Capacity =
  Min_cap :: int64
  Max_cap :: int64
  Desired_cap :: int64

text \<open>
  Go errors. \<open>errors_New msg\<close> is \<open>errors.New(msg)\<close>; \<open>timeout_exceeded t\<close> is
  \<open>fmt.Errorf("timeout has been exceeded : %.0f minutes", config.Timeout.Minutes())\<close> with
  \<open>t = config.Timeout\<close>; \<open>external msg\<close> is an error handed back by a collaborator.
  A Go \<open>error\<close> result is an \<open>error option\<close>, \<open>None\<close> being \<open>nil\<close>.
\<close>

datatype error = errors_New string | timeout_exceeded int | external string

text \<open>
  The fields of \<open>schemas.Config\<close> that the runner reads or writes. \<open>Config.Stack\<close>,
  \<open>Config.Min\<close>, \<open>Config.Max\<close> and \<open>Config.Desired\<close> carry the suffix \<open>_cfg\<close>.
  Timestamps and durations are integers of one unit (seconds); the runner passes them on
  and never computes with them.
\<close>

record Config =
  Stack_cfg :: string
  Region :: string
  Application :: string
  AutoApply :: bool
  SlackOff :: bool
  Min_cfg :: int64
  Max_cfg :: int64
  Desired_cfg :: int64
  StartTimestamp :: int
  Timeout :: int
  PollingInterval :: int
  DownSizingUpdate :: bool
  TargetAutoscalingGroup :: string
  ForceManifestCapacity :: bool

text \<open>\<open>schemas.Stack\<close>: the fields \<open>getDeployer\<close> and the stack filter read.\<close>

record Stack =
  Stack :: string
  APITestEnabled :: bool
  APITestTemplate :: string

text \<open>
  The autoscaling group that \<open>inspector.GetStackInformation\<close> returns; \<open>Runner.Update\<close>
  dereferences these four fields, modelled as present.
\<close>

record Group =
  MinSize :: int64
  MaxSize :: int64
  DesiredCapacity :: int64
  AutoScalingGroupName :: string

text \<open>The error-returning lifecycle operations of a deployer, and \<open>SkipDeployStep\<close>.\<close>

datatype action =
    CheckPrevious | Deploy | SkipDeployStep | FinishAdditionalWork
  | TriggerLifecycleCallbacks | CleanPreviousVersion | GatherMetrics | RunAPITest

text \<open>
  Modelled from the spec: the interface \<open>deployer.DeployManager\<close> is declared in
  pkg/deployer, which is not under src/. A deployer is what its operations answer:
  \<open>perform d a config\<close> is the error of lifecycle operation \<open>a\<close>; \<open>HealthChecking d config k\<close>
  and \<open>TerminateChecking d config k\<close> are the result maps of the probe launched in polling
  round \<open>k\<close>, a Go \<open>map[string]bool\<close> written as the list of its entries in the order that
  \<open>range\<close> visits them.
\<close>

record DeployManager =
  GetStackName :: string
  perform :: "action \<Rightarrow> Config \<Rightarrow> error option"
  HealthChecking :: "Config \<Rightarrow> nat \<Rightarrow> (string \<times> bool) list"
  TerminateChecking :: "Config \<Rightarrow> nat \<Rightarrow> (string \<times> bool) list"

text \<open>What a run does to the outside, in the order it does it.\<close>

datatype event =
    Prompt string
  | PrintSummary
  | SendSummaryMessage "string list"
  | CheckStorage
  | NewDeployer string
  | Attempt string action
  | Logged error
  | HealthProbe nat string
  | TerminateProbe nat string
  | Sleep int
  | SelectStack string
  | GetStackInformation string
  | Inspector_Update string Capacity
  | GenerateStack string

text \<open>
  The collaborators of one run, as the answers they give: the operating system name,
  the operator at the prompt, the builder's summary printer, the slack client, the metrics
  collector, the deployer constructor, the inspector, the wall clock read by the
  \<open>k\<close>-th deadline check, and for each polling round the order in which the probe
  goroutines get to send on the unbuffered channel.
\<close>

record World =
  GOOS :: string
  AskContinue :: "string \<Rightarrow> bool"
  PrintSummary_err :: "error option"
  ValidClient :: bool
  SendSummaryMessage_err :: "error option"
  CheckStorage_err :: "error option"
  NewBlueGrean :: "string option \<Rightarrow> Stack \<Rightarrow> DeployManager"
  SelectStack_res :: "string \<Rightarrow> error + string"
  GetStackInformation_res :: "string \<Rightarrow> error + Group"
  Inspector_Update_err :: "string \<Rightarrow> Capacity \<Rightarrow> error option"
  GenerateStack_res :: "string \<Rightarrow> Group \<Rightarrow> Stack"
  clock :: "nat \<Rightarrow> int"
  health_arrival :: "nat \<Rightarrow> nat list"
  terminate_arrival :: "nat \<Rightarrow> nat list"

text \<open>
  \<open>Runner\<close> with the parts of its \<open>Builder\<close> that the three flows read: the configuration,
  the declared stacks, the names of the API test templates and \<open>MetricConfig.Enabled\<close>.
\<close>

record Runner =
  Builder_Config :: Config
  Builder_Stacks :: "Stack list"
  Builder_APITestTemplates :: "string list"
  Builder_MetricConfig_Enabled :: bool

section \<open>Capacity update planner\<close>

definition makeCapacityStruct :: "int64 \<Rightarrow> int64 \<Rightarrow> int64 \<Rightarrow> Capacity" where
  "makeCapacityStruct minimum maximum desired =
     \<lparr>Min_cap = minimum, Max_cap = maximum, Desired_cap = desired\<rparr>"

definition nullCheck :: "int64 \<Rightarrow> int64 \<Rightarrow> int64" where
  "nullCheck input origin = (if input <s 0 then origin else input)"

definition CheckUpdateInformation :: "Capacity \<Rightarrow> Capacity \<Rightarrow> error option" where
  "CheckUpdateInformation old new =
     (if Max_cap new <s Min_cap new
      then Some (errors_New ''minimum value cannot be larger than maximum value'')
      else if Desired_cap new <s Min_cap new
      then Some (errors_New ''desired value cannot be smaller than maximum value'')
      else if Max_cap new <s Desired_cap new
      then Some (errors_New ''desired value cannot be larger than max value'')
      else if old = new
      then Some (errors_New ''nothing is updated'')
      else None)"

text \<open>
  Lines 530 and 531 of \<open>Runner.Update\<close>: the capacity fetched from the group, and the
  capacity to apply.
\<close>

definition oldCapacity :: "Group \<Rightarrow> Capacity" where
  "oldCapacity grp = makeCapacityStruct (MinSize grp) (MaxSize grp) (DesiredCapacity grp)"

definition newCapacity :: "Config \<Rightarrow> Group \<Rightarrow> Capacity" where
  "newCapacity config grp =
     makeCapacityStruct
       (nullCheck (Min_cfg config) (Min_cap (oldCapacity grp)))
       (nullCheck (Max_cfg config) (Max_cap (oldCapacity grp)))
       (nullCheck (Desired_cfg config) (Desired_cap (oldCapacity grp)))"

text \<open>
  The three ordering rules of the spec's validation step, in the spec's order, each with
  the error that \<open>CheckUpdateInformation\<close> has for it; \<open>first_violated\<close> is the error of the
  first rule that the new capacity breaks.
\<close>

definition capacity_rules :: "((Capacity \<Rightarrow> bool) \<times> error) list" where
  "capacity_rules =
     [(\<lambda>new. Max_cap new <s Min_cap new,
         errors_New ''minimum value cannot be larger than maximum value''),
      (\<lambda>new. Desired_cap new <s Min_cap new,
         errors_New ''desired value cannot be smaller than maximum value''),
      (\<lambda>new. Max_cap new <s Desired_cap new,
         errors_New ''desired value cannot be larger than max value'')]"

definition first_violated :: "Capacity \<Rightarrow> error option" where
  "first_violated new = map_option snd (find (\<lambda>rule. fst rule new) capacity_rules)"

section \<open>Convergence pollers\<close>

text \<open>
  Modelled from the spec: \<open>tool.IsStringInArray\<close> and \<open>tool.CheckTimeout\<close> are in pkg/tool,
  which is not under src/. The first is membership of a string in a slice. The second
  reads the wall clock itself; here the reading \<open>now\<close> is an argument, and the deadline is
  exceeded when the time elapsed since \<open>start\<close> is more than \<open>timeout\<close>.
\<close>

definition IsStringInArray :: "string \<Rightarrow> string list \<Rightarrow> bool" where
  "IsStringInArray s arr = (s \<in> set arr)"

definition CheckTimeout :: "int \<Rightarrow> int \<Rightarrow> int \<Rightarrow> bool" where
  "CheckTimeout now start timeout = (timeout < now - start)"

text \<open>
  A Go \<open>for cond { body }\<close> whose body may \<open>return\<close> an error: the body maps the local
  variables to their new values and to the error it returns, if it does. The loop yields
  the variables it ends with and the error returned from inside it (\<open>None\<close> when the
  condition ended it), and \<open>None\<close> as a whole when it runs forever.
\<close>

partial_function (option) for_loop ::
  "('s \<Rightarrow> bool) \<Rightarrow> ('s \<Rightarrow> 's \<times> error option) \<Rightarrow> 's \<Rightarrow> ('s \<times> error option) option" where
  "for_loop cond body s =
     (if cond s
      then (case body s of
              (s', Some e) \<Rightarrow> Some (s', Some e)
            | (s', None) \<Rightarrow> for_loop cond body s')
      else Some (s, None))"

declare for_loop.simps [code]

text \<open>
  \<open>reach cond body k s\<close> is the value of the variables at the head of iteration \<open>k\<close>
  (counted from 0), when the loop started from \<open>s\<close> gets that far: the \<open>k\<close> iterations
  before it were entered and none of them returned.
\<close>

primrec reach :: "('s \<Rightarrow> bool) \<Rightarrow> ('s \<Rightarrow> 's \<times> error option) \<Rightarrow> nat \<Rightarrow> 's \<Rightarrow> 's option" where
  "reach cond body 0 s = Some s"
| "reach cond body (Suc k) s =
     (case reach cond body k s of
        None \<Rightarrow> None
      | Some t \<Rightarrow>
          if cond t
          then (case body t of (t', None) \<Rightarrow> Some t' | (t', Some e) \<Rightarrow> None)
          else None)"

text \<open>
  The probe goroutines of a round send on one unbuffered channel, and the collector
  receives the results in the order the scheduler lets them send. \<open>interleave ps xs\<close> is
  the arrival order of the results \<open>xs\<close> (in launch order) under the choices \<open>ps\<close>: each
  result is put at the chosen place among those launched after it. Every arrival order is
  \<open>interleave ps xs\<close> for some \<open>ps\<close>, and with no choices it is the launch order.
\<close>

fun interleave :: "nat list \<Rightarrow> 'a list \<Rightarrow> 'a list" where
  "interleave ps [] = []"
| "interleave [] (x # xs) = x # xs"
| "interleave (p # ps) (x # xs) =
     (let ys = interleave ps xs; i = p mod Suc (length ys) in take i ys @ x # drop i ys)"

text \<open>The Go expression \<open>ret["error"]\<close>: the value at the key, \<open>false\<close> when it is absent.\<close>

definition sentinel :: "(string \<times> bool) list \<Rightarrow> bool" where
  "sentinel ret = (map_of ret ''error'' = Some True)"

text \<open>The keys that one result map adds to the healthy list, and to the done list.\<close>

definition healthy_keys :: "(string \<times> bool) list \<Rightarrow> string list" where
  "healthy_keys ret = map fst (filter (\<lambda>(key, val). key \<noteq> ''error'' \<and> val) ret)"

definition done_keys :: "(string \<times> bool) list \<Rightarrow> string list" where
  "done_keys ret = map fst (filter (\<lambda>(stack, fin). fin) ret)"

text \<open>
  The local variables of \<open>doHealthchecking\<close>, with the number of the round and the probes
  launched and sleeps taken so far.
\<close>

record health_vars =
  h_round :: nat
  healthyStackList :: "string list"
  healthy :: bool
  h_events :: "event list"

text \<open>
  The receive loop \<open>for count > 0\<close> of \<open>doHealthchecking\<close> over the results in arrival
  order: the healthy list it ends with, and the error if a result carries the sentinel.
\<close>

fun health_receive :: "(string \<times> bool) list list \<Rightarrow> string list \<Rightarrow> string list \<times> error option" where
  "health_receive [] hl = (hl, None)"
| "health_receive (ret # ch) hl =
     (if sentinel ret
      then (hl, Some (errors_New ''error happened while healthchecking''))
      else health_receive ch (hl @ healthy_keys ret))"

text \<open>The deployers whose probe a round launches: those not yet in the list.\<close>

definition launched :: "DeployManager list \<Rightarrow> string list \<Rightarrow> DeployManager list" where
  "launched deployers stackList =
     filter (\<lambda>d. \<not> IsStringInArray (GetStackName d) stackList) deployers"

definition health_body ::
  "DeployManager list \<Rightarrow> Config \<Rightarrow> World \<Rightarrow> health_vars \<Rightarrow> health_vars \<times> error option" where
  "health_body deployers config w s =
     (if CheckTimeout (clock w (h_round s)) (StartTimestamp config) (Timeout config)
      then (s, Some (timeout_exceeded (Timeout config)))
      else
        let ds = launched deployers (healthyStackList s);
            ch = interleave (health_arrival w (h_round s))
                   (map (\<lambda>d. HealthChecking d config (h_round s)) ds);
            ev = h_events s @ map (\<lambda>d. HealthProbe (h_round s) (GetStackName d)) ds
        in case health_receive ch (healthyStackList s) of
             (hl, Some e) \<Rightarrow> (s\<lparr>healthyStackList := hl, h_events := ev\<rparr>, Some e)
           | (hl, None) \<Rightarrow>
               if length hl = length deployers
               then (s\<lparr>h_round := Suc (h_round s), healthyStackList := hl, healthy := True,
                       h_events := ev\<rparr>, None)
               else (s\<lparr>h_round := Suc (h_round s), healthyStackList := hl,
                       h_events := ev @ [Sleep (PollingInterval config)]\<rparr>, None))"

definition health_init :: health_vars where
  "health_init = \<lparr>h_round = 0, healthyStackList = [], healthy = False, h_events = []\<rparr>"

definition health_loop ::
  "DeployManager list \<Rightarrow> Config \<Rightarrow> World \<Rightarrow> (health_vars \<times> error option) option" where
  "health_loop deployers config w =
     for_loop (\<lambda>s. \<not> healthy s) (health_body deployers config w) health_init"

text \<open>
  \<open>doHealthchecking\<close>: the probes and sleeps of the call and the error it returns; \<open>None\<close>
  when it never returns.
\<close>

definition doHealthchecking ::
  "DeployManager list \<Rightarrow> Config \<Rightarrow> World \<Rightarrow> (event list \<times> error option) option" where
  "doHealthchecking deployers config w =
     map_option (\<lambda>(s, err). (h_events s, err)) (health_loop deployers config w)"

text \<open>The variables at the head of round \<open>k\<close> of \<open>doHealthchecking\<close>.\<close>

definition health_at ::
  "DeployManager list \<Rightarrow> Config \<Rightarrow> World \<Rightarrow> nat \<Rightarrow> health_vars option" where
  "health_at deployers config w k =
     reach (\<lambda>s. \<not> healthy s) (health_body deployers config w) k health_init"

text \<open>The local variables of \<open>cleanChecking\<close>; \<open>done\<close> is a keyword, hence \<open>done_flag\<close>.\<close>

record clean_vars =
  c_round :: nat
  doneStackList :: "string list"
  done_flag :: bool
  c_events :: "event list"

fun clean_receive :: "(string \<times> bool) list list \<Rightarrow> string list \<Rightarrow> string list" where
  "clean_receive [] dl = dl"
| "clean_receive (ret # ch) dl = clean_receive ch (dl @ done_keys ret)"

definition clean_body ::
  "DeployManager list \<Rightarrow> Config \<Rightarrow> World \<Rightarrow> clean_vars \<Rightarrow> clean_vars \<times> error option" where
  "clean_body deployers config w s =
     (let ds = launched deployers (doneStackList s);
          ch = interleave (terminate_arrival w (c_round s))
                 (map (\<lambda>d. TerminateChecking d config (c_round s)) ds);
          ev = c_events s @ map (\<lambda>d. TerminateProbe (c_round s) (GetStackName d)) ds;
          dl = clean_receive ch (doneStackList s)
      in if length dl = length deployers
         then (s\<lparr>c_round := Suc (c_round s), doneStackList := dl, done_flag := True,
                 c_events := ev\<rparr>, None)
         else (s\<lparr>c_round := Suc (c_round s), doneStackList := dl,
                 c_events := ev @ [Sleep (PollingInterval config)]\<rparr>, None))"

definition clean_init :: clean_vars where
  "clean_init = \<lparr>c_round = 0, doneStackList = [], done_flag = False, c_events = []\<rparr>"

definition clean_loop ::
  "DeployManager list \<Rightarrow> Config \<Rightarrow> World \<Rightarrow> (clean_vars \<times> error option) option" where
  "clean_loop deployers config w =
     for_loop (\<lambda>s. \<not> done_flag s) (clean_body deployers config w) clean_init"

definition cleanChecking ::
  "DeployManager list \<Rightarrow> Config \<Rightarrow> World \<Rightarrow> (event list \<times> error option) option" where
  "cleanChecking deployers config w =
     map_option (\<lambda>(s, err). (c_events s, err)) (clean_loop deployers config w)"

definition clean_at ::
  "DeployManager list \<Rightarrow> Config \<Rightarrow> World \<Rightarrow> nat \<Rightarrow> clean_vars option" where
  "clean_at deployers config w k =
     reach (\<lambda>s. \<not> done_flag s) (clean_body deployers config w) k clean_init"

section \<open>The deploy, delete and update flows\<close>

text \<open>
  \<open>Runner.LocalCheck\<close>: on darwin and without \<open>AutoApply\<close> the operator is asked, and
  declining is an error.
\<close>

definition LocalCheck :: "Runner \<Rightarrow> World \<Rightarrow> string \<Rightarrow> event list \<times> error option" where
  "LocalCheck r w message =
     (if GOOS w = ''darwin'' \<and> \<not> AutoApply (Builder_Config r)
      then (if \<not> AskContinue w message
            then ([Prompt message], Some (errors_New ''you declined to run command''))
            else ([Prompt message], None))
      else ([], None))"

definition CheckEnabledMetrics :: "World \<Rightarrow> event list \<times> error option" where
  "CheckEnabledMetrics w = ([CheckStorage], CheckStorage_err w)"

text \<open>
  \<open>getDeployer\<close>: the API test template of the stack, when it has one enabled, and the
  deployer that \<open>deployer.NewBlueGrean\<close> builds for the stack.
\<close>

definition getDeployer :: "Runner \<Rightarrow> World \<Rightarrow> Stack \<Rightarrow> DeployManager" where
  "getDeployer r w stack =
     (let att = (if APITestEnabled stack
                 then find (\<lambda>at. at = APITestTemplate stack) (Builder_APITestTemplates r)
                 else None)
      in NewBlueGrean w att stack)"

text \<open>
  The stacks for which \<open>Runner.Deploy\<close> and \<open>Runner.Delete\<close> build a deployer: all of them,
  or the one that \<open>Config.Stack\<close> names.
\<close>

definition target_stacks :: "Runner \<Rightarrow> Stack list" where
  "target_stacks r =
     filter (\<lambda>stack. \<not> (Stack_cfg (Builder_Config r) \<noteq> [] \<and> Stack stack \<noteq> Stack_cfg (Builder_Config r)))
       (Builder_Stacks r)"

text \<open>
  One lifecycle call of a goroutine: the operation is invoked, and its error, if any, goes
  to the log and nowhere else. \<open>SkipDeployStep\<close> returns nothing.
\<close>

fun invoke :: "Config \<Rightarrow> DeployManager \<Rightarrow> action \<Rightarrow> event list" where
  "invoke config d SkipDeployStep = [Attempt (GetStackName d) SkipDeployStep]"
| "invoke config d a =
     Attempt (GetStackName d) a #
       (case perform d a config of None \<Rightarrow> [] | Some e \<Rightarrow> [Logged e])"

text \<open>
  One phase: a goroutine for each deployer makes the phase's calls in order, and
  \<open>wg.Wait()\<close> joins them. The events of a goroutine are in program order; those of
  different goroutines are listed in the order of the deployers, whatever the scheduler did.
\<close>

definition phase :: "Config \<Rightarrow> action list \<Rightarrow> DeployManager list \<Rightarrow> event list" where
  "phase config acts deployers =
     concat (map (\<lambda>d. concat (map (invoke config d) acts)) deployers)"

text \<open>The slack summary of \<open>Runner.Deploy\<close>: a send failure is logged, not returned.\<close>

definition slack_summary :: "Runner \<Rightarrow> World \<Rightarrow> event list" where
  "slack_summary r w =
     (if ValidClient w
      then SendSummaryMessage
             (map Stack (filter (\<lambda>s. length (Stack_cfg (Builder_Config r)) = 0
                                      \<or> Stack_cfg (Builder_Config r) = Stack s)
                           (Builder_Stacks r))) #
           (case SendSummaryMessage_err w of None \<Rightarrow> [] | Some e \<Rightarrow> [Logged e])
      else [])"

definition Runner_Deploy :: "Runner \<Rightarrow> World \<Rightarrow> (event list \<times> error option) option" where
  "Runner_Deploy r w =
     (let config = Builder_Config r in
      case LocalCheck r w ''Do you really want to deploy this application? '' of
        (t0, Some e) \<Rightarrow> Some (t0, Some e)
      | (t0, None) \<Rightarrow>
     (case PrintSummary_err w of
        Some e \<Rightarrow> Some (t0 @ [PrintSummary], Some e)
      | None \<Rightarrow>
     (let t1 = t0 @ [PrintSummary] @ slack_summary r w in
      case (if Builder_MetricConfig_Enabled r then CheckEnabledMetrics w else ([], None)) of
        (tm, Some e) \<Rightarrow> Some (t1 @ tm, Some e)
      | (tm, None) \<Rightarrow>
     (let deployers = map (getDeployer r w) (target_stacks r);
          t2 = t1 @ tm @ map (\<lambda>stack. NewDeployer (Stack stack)) (target_stacks r)
                 @ phase config [CheckPrevious, Deploy] deployers
      in case doHealthchecking deployers config w of
        None \<Rightarrow> None
      | Some (th, Some e) \<Rightarrow> Some (t2 @ th, Some e)
      | Some (th, None) \<Rightarrow>
     (let t3 = t2 @ th
                 @ phase config
                     [FinishAdditionalWork, TriggerLifecycleCallbacks, CleanPreviousVersion]
                     deployers
      in case cleanChecking deployers config w of
        None \<Rightarrow> None
      | Some (tc, Some e) \<Rightarrow> Some (t3 @ tc, Some e)
      | Some (tc, None) \<Rightarrow>
          Some (t3 @ tc @ phase config [GatherMetrics] deployers
                  @ phase config [RunAPITest] deployers, None))))))"

definition Runner_Delete :: "Runner \<Rightarrow> World \<Rightarrow> (event list \<times> error option) option" where
  "Runner_Delete r w =
     (let config = (Builder_Config r)\<lparr>SlackOff := True\<rparr> in
      case LocalCheck r w ''Do you really want to delete applications? '' of
        (t0, Some e) \<Rightarrow> Some (t0, Some e)
      | (t0, None) \<Rightarrow>
     (case (if Builder_MetricConfig_Enabled r then CheckEnabledMetrics w else ([], None)) of
        (tm, Some e) \<Rightarrow> Some (t0 @ tm, Some e)
      | (tm, None) \<Rightarrow>
     (let deployers = map (getDeployer r w) (target_stacks r);
          t1 = t0 @ tm @ map (\<lambda>stack. NewDeployer (Stack stack)) (target_stacks r)
                 @ phase config
                     [CheckPrevious, SkipDeployStep, TriggerLifecycleCallbacks,
                      CleanPreviousVersion]
                     deployers
      in case cleanChecking deployers config w of
        None \<Rightarrow> None
      | Some (tc, Some e) \<Rightarrow> Some (t1 @ tc, Some e)
      | Some (tc, None) \<Rightarrow> Some (t1 @ tc @ phase config [GatherMetrics] deployers, None))))"

definition Runner_Update :: "Runner \<Rightarrow> World \<Rightarrow> (event list \<times> error option) option" where
  "Runner_Update r w =
     (let config = Builder_Config r; t0 = [SelectStack (Application config)] in
      case SelectStack_res w (Application config) of
        Inl e \<Rightarrow> Some (t0, Some e)
      | Inr asg \<Rightarrow>
     (let t1 = t0 @ [GetStackInformation asg] in
      case GetStackInformation_res w asg of
        Inl e \<Rightarrow> Some (t1, Some e)
      | Inr grp \<Rightarrow>
     (case CheckUpdateInformation (oldCapacity grp) (newCapacity config grp) of
        Some e \<Rightarrow> Some (t1, Some e)
      | None \<Rightarrow>
     (case LocalCheck r w ''Do you really want to update? '' of
        (tp, Some e) \<Rightarrow> Some (t1 @ tp, Some e)
      | (tp, None) \<Rightarrow>
     (let t2 = t1 @ tp
                 @ [Inspector_Update (AutoScalingGroupName grp) (newCapacity config grp)]
      in case Inspector_Update_err w (AutoScalingGroupName grp) (newCapacity config grp) of
        Some e \<Rightarrow> Some (t2, Some e)
      | None \<Rightarrow>
     (let stack = GenerateStack_res w (Region config) grp;
          config' = config
            \<lparr>DownSizingUpdate := Desired_cap (newCapacity config grp) <s Desired_cap (oldCapacity grp),
             TargetAutoscalingGroup := AutoScalingGroupName grp,
             ForceManifestCapacity := False\<rparr>;
          deployers = [getDeployer r w stack];
          t3 = t2 @ [GenerateStack (Region config), NewDeployer (Stack stack)]
      in case doHealthchecking deployers config' w of
        None \<Rightarrow> None
      | Some (th, err) \<Rightarrow> Some (t3 @ th, err)))))))"

section \<open>Outcomes of the lifecycle operations\<close>

text \<open>
  \<open>assign_outcomes f w\<close> is the world \<open>w\<close> with the outcomes \<open>f\<close> given to the lifecycle
  operations of every deployer: the deployer built for \<open>stack\<close> answers operation \<open>a\<close> with
  \<open>f stack a\<close>. Its names and its probes stay as they are.
\<close>

definition assign_outcomes ::
  "(Stack \<Rightarrow> action \<Rightarrow> Config \<Rightarrow> error option) \<Rightarrow> World \<Rightarrow> World" where
  "assign_outcomes f w =
     w\<lparr>NewBlueGrean := (\<lambda>att stack. (NewBlueGrean w att stack)\<lparr>perform := f stack\<rparr>)\<rparr>"

text \<open>A line of the log, as opposed to a call made to a collaborator.\<close>

fun is_log :: "event \<Rightarrow> bool" where
  "is_log (Logged e) = True"
| "is_log ev = False"

text \<open>What a run did apart from logging, with its verdict.\<close>

definition calls_and_verdict ::
  "(event list \<times> error option) option \<Rightarrow> (event list \<times> error option) option" where
  "calls_and_verdict run = map_option (\<lambda>(tr, res). (filter (\<lambda>ev. \<not> is_log ev) tr, res)) run"

text \<open>The construction of a deployer, or a call of one of its lifecycle operations.\<close>

fun deployer_event :: "event \<Rightarrow> bool" where
  "deployer_event (NewDeployer n) = True"
| "deployer_event (Attempt n a) = True"
| "deployer_event ev = False"

text \<open>The operations that the deploy flow makes on every deployer.\<close>

definition deploy_actions :: "action list" where
  "deploy_actions =
     [CheckPrevious, Deploy, FinishAdditionalWork, TriggerLifecycleCallbacks,
      CleanPreviousVersion, GatherMetrics, RunAPITest]"

section \<open>What the probes of a round report\<close>

text \<open>
  The identifiers that round \<open>j\<close> reports true: the keys with value \<open>true\<close> in the result
  maps of the deployers whose probe the events \<open>ev\<close> record as launched in round \<open>j\<close>
  (for the health probes, the error key apart).
\<close>

definition health_reported :: "DeployManager list \<Rightarrow> Config \<Rightarrow> event list \<Rightarrow> nat \<Rightarrow> string list" where
  "health_reported deployers config ev j =
     concat (map (\<lambda>d. map fst (filter (\<lambda>(key, val). key \<noteq> ''error'' \<and> val)
                                  (HealthChecking d config j)))
               (filter (\<lambda>d. HealthProbe j (GetStackName d) \<in> set ev) deployers))"

definition clean_reported :: "DeployManager list \<Rightarrow> Config \<Rightarrow> event list \<Rightarrow> nat \<Rightarrow> string list" where
  "clean_reported deployers config ev j =
     concat (map (\<lambda>d. map fst (filter (\<lambda>(stack, fin). fin) (TerminateChecking d config j)))
               (filter (\<lambda>d. TerminateProbe j (GetStackName d) \<in> set ev) deployers))"

section \<open>A sample run\<close>

text \<open>
  A deployer named \<open>n\<close> whose lifecycle operations succeed, which is healthy from round
  \<open>hk\<close> on and whose previous version is gone from round \<open>tk\<close> on; a configuration with a
  timeout of 10 from timestamp 0 and the capacity override Desired = 5; a world that is
  not darwin, whose operator would decline, whose group has capacity (1, 10, 3) and whose
  clock reads \<open>k\<close> at the \<open>k\<close>-th deadline check; a runner for the two stacks A and B.
\<close>

definition sample_deployer :: "string \<Rightarrow> nat \<Rightarrow> nat \<Rightarrow> DeployManager" where
  "sample_deployer n hk tk =
     \<lparr>GetStackName = n, perform = (\<lambda>a c. None),
      HealthChecking = (\<lambda>c k. [(n, hk \<le> k)]),
      TerminateChecking = (\<lambda>c k. [(n, tk \<le> k)])\<rparr>"

definition sample_deployers :: "DeployManager list" where
  "sample_deployers = [sample_deployer ''A'' 0 0, sample_deployer ''B'' 1 3]"

definition sample_config :: Config where
  "sample_config =
     \<lparr>Stack_cfg = [], Region = ''r'', Application = ''app'', AutoApply = False,
      SlackOff = False, Min_cfg = - 1, Max_cfg = - 1, Desired_cfg = 5, StartTimestamp = 0,
      Timeout = 10, PollingInterval = 1, DownSizingUpdate = False,
      TargetAutoscalingGroup = [], ForceManifestCapacity = False\<rparr>"

definition sample_stack :: "string \<Rightarrow> Stack" where
  "sample_stack n = \<lparr>Stack = n, APITestEnabled = False, APITestTemplate = []\<rparr>"

definition sample_world :: World where
  "sample_world =
     \<lparr>GOOS = ''linux'', AskContinue = (\<lambda>m. False), PrintSummary_err = None,
      ValidClient = False, SendSummaryMessage_err = None, CheckStorage_err = None,
      NewBlueGrean = (\<lambda>att st. sample_deployer (Stack st) 1 2),
      SelectStack_res = (\<lambda>a. Inr ''asg''),
      GetStackInformation_res =
        (\<lambda>a. Inr \<lparr>MinSize = 1, MaxSize = 10, DesiredCapacity = 3,
                   AutoScalingGroupName = ''asg-1''\<rparr>),
      Inspector_Update_err = (\<lambda>n c. None),
      GenerateStack_res = (\<lambda>r g. sample_stack ''gen''),
      clock = (\<lambda>k. int k), health_arrival = (\<lambda>k. [1, 0]),
      terminate_arrival = (\<lambda>k. [])\<rparr>"

definition sample_runner :: Runner where
  "sample_runner =
     \<lparr>Builder_Config = sample_config,
      Builder_Stacks = [sample_stack ''A'', sample_stack ''B''],
      Builder_APITestTemplates = [], Builder_MetricConfig_Enabled = True\<rparr>"

text \<open>
  The same world entered late: the first deadline check reads 100, the run having started
  at timestamp 0. A deployer whose health probe answers with the error sentinel and whose
  previous version never goes away.
\<close>

definition sample_late_world :: World where
  "sample_late_world = sample_world\<lparr>clock := (\<lambda>k. 100 + int k)\<rparr>"

definition sample_failing :: DeployManager where
  "sample_failing =
     \<lparr>GetStackName = ''C'', perform = (\<lambda>a c. None),
      HealthChecking = (\<lambda>c k. [(''error'', True)]),
      TerminateChecking = (\<lambda>c k. [(''C'', False)])\<rparr>"

text \<open>
  Two deployers that share the stack name A, the previous version of the first gone from
  round 0 on, that of the second from round 1 on.
\<close>

definition sample_duplicates :: "DeployManager list" where
  "sample_duplicates = [sample_deployer ''A'' 0 0, sample_deployer ''A'' 0 1]"

section \<open>The deadline in the spec's words\<close>

text \<open>
  The spec measures the deadline of the health poller from loop entry: the time elapsed
  at the deadline check of round \<open>k\<close> since the first check, which the loop makes on
  entry.
\<close>

definition elapsed_since_entry :: "World \<Rightarrow> nat \<Rightarrow> int" where
  "elapsed_since_entry w k = clock w k - clock w 0"

section \<open>Loops and arrival orders\<close>

lemma reach_Suc_front:
  "reach cond body (Suc k) s =
     (if cond s then (case body s of (s', None) \<Rightarrow> reach cond body k s' | (s', Some e) \<Rightarrow> None)
      else None)"
proof (induction k)
  case 0
  show ?case by (simp split: prod.splits option.splits)
next
  case (Suc k)
  have "reach cond body (Suc (Suc k)) s =
      (case reach cond body (Suc k) s of None \<Rightarrow> None
       | Some t \<Rightarrow> if cond t then (case body t of (t', None) \<Rightarrow> Some t' | (t', Some e) \<Rightarrow> None) else None)"
    by simp
  also have "\<dots> = (if cond s then (case body s of (s', None) \<Rightarrow> reach cond body (Suc k) s' | (s', Some e) \<Rightarrow> None)
      else None)"
    unfolding Suc.IH by (simp split: prod.splits option.splits)
  finally show ?case .
qed

lemma for_loop_reach:
  "reach cond body k s = Some t \<Longrightarrow> for_loop cond body s = for_loop cond body t"
proof (induction k arbitrary: t)
  case 0
  then show ?case by simp
next
  case (Suc k)
  from Suc.prems obtain u where u: "reach cond body k s = Some u" "cond u" "body u = (t, None)"
    by (auto split: option.splits if_splits prod.splits)
  have "for_loop cond body s = for_loop cond body u" using Suc.IH u(1) by simp
  also have "\<dots> = for_loop cond body t" using u(2,3) by (subst for_loop.simps) simp
  finally show ?case .
qed

lemma for_loop_exit:
  assumes "reach cond body k s = Some t" and "\<not> cond t"
  shows "for_loop cond body s = Some (t, None)"
proof -
  have "for_loop cond body t = Some (t, None)" using assms(2) by (subst for_loop.simps) simp
  with for_loop_reach [OF assms(1)] show ?thesis by simp
qed

lemma for_loop_return:
  assumes "reach cond body k s = Some t" and "cond t" and "body t = (u, Some e)"
  shows "for_loop cond body s = Some (u, Some e)"
proof -
  have "for_loop cond body t = Some (u, Some e)" using assms(2,3) by (subst for_loop.simps) simp
  with for_loop_reach [OF assms(1)] show ?thesis by simp
qed

lemma for_loop_SomeD:
  assumes "for_loop cond body s = Some y"
  shows "\<exists>k t. reach cond body k s = Some t \<and>
           ((\<not> cond t \<and> y = (t, None)) \<or> (cond t \<and> (\<exists>e. snd y = Some e) \<and> body t = y))"
proof -
  let ?P = "\<lambda>c b s y. \<exists>k t. reach c b k s = Some t \<and>
           ((\<not> c t \<and> y = (t, None)) \<or> (c t \<and> (\<exists>e. snd y = Some e) \<and> b t = y))"
  show "?P cond body s y"
  proof (rule for_loop.raw_induct [where P = ?P, OF _ assms])
    fix loop :: "('a \<Rightarrow> bool) \<Rightarrow> ('a \<Rightarrow> 'a \<times> error option) \<Rightarrow> 'a \<Rightarrow> ('a \<times> error option) option"
    fix c b s0 y0
    assume IH: "\<And>c b s y. loop c b s = Some y \<Longrightarrow> ?P c b s y"
      and eq: "(if c s0 then (case b s0 of (s', Some e) \<Rightarrow> Some (s', Some e)
                 | (s', None) \<Rightarrow> loop c b s') else Some (s0, None)) = Some y0"
    show "?P c b s0 y0"
    proof (cases "c s0")
      case False
      with eq have "y0 = (s0, None)" by simp
      with False have "reach c b 0 s0 = Some s0 \<and> \<not> c s0 \<and> y0 = (s0, None)" by simp
      then show ?thesis by blast
    next
      case True
      obtain s' r where b: "b s0 = (s', r)" by (cases "b s0")
      show ?thesis
      proof (cases r)
        case (Some e)
        with eq True b have "y0 = (s', Some e)" by simp
        with True b Some
        have "reach c b 0 s0 = Some s0 \<and> c s0 \<and> (\<exists>e. snd y0 = Some e) \<and> b s0 = y0"
          by simp
        then show ?thesis by blast
      next
        case None
        with eq True b have "loop c b s' = Some y0" by simp
        from IH [OF this] obtain k t where kt: "reach c b k s' = Some t"
          "(\<not> c t \<and> y0 = (t, None)) \<or> (c t \<and> (\<exists>e. snd y0 = Some e) \<and> b t = y0)"
          by blast
        have "reach c b (Suc k) s0 = Some t"
          using True b None kt(1) by (simp add: reach_Suc_front del: reach.simps)
        with kt(2) show ?thesis by blast
      qed
    qed
  qed
qed

lemma for_loop_diverges:
  assumes "\<And>k. \<exists>t. reach cond body k s = Some t \<and> cond t"
  shows "for_loop cond body s = None"
proof (rule ccontr)
  assume "for_loop cond body s \<noteq> None"
  then obtain y where "for_loop cond body s = Some y" by auto
  from for_loop_SomeD [OF this] obtain k t where kt: "reach cond body k s = Some t"
     "(\<not> cond t \<and> y = (t, None)) \<or> (cond t \<and> (\<exists>e. snd y = Some e) \<and> body t = y)" by blast
  from assms [of k] kt(1) have c: "cond t" by simp
  with kt(2) obtain e where "snd (body t) = Some e" by auto
  with kt(1) c have "reach cond body (Suc k) s = None" by (auto split: prod.splits)
  with assms [of "Suc k"] show False by simp
qed

lemma length_interleave [simp]: "length (interleave ps xs) = length xs"
  by (induction ps xs rule: interleave.induct) (simp_all add: Let_def)

lemma set_insert_at: "set (take i ys @ x # drop i ys) = insert x (set ys)"
proof -
  have "set (take i ys) \<union> set (drop i ys) = set ys"
    by (metis append_take_drop_id set_append)
  then show ?thesis by auto
qed

lemma distinct_insert_at: "distinct (take i ys @ x # drop i ys) = (x \<notin> set ys \<and> distinct ys)"
proof -
  have s: "set (take i ys) \<union> set (drop i ys) = set ys"
    by (metis append_take_drop_id set_append)
  have d: "distinct (take i ys @ drop i ys) = distinct ys" by simp
  show ?thesis using s d by (auto simp del: append_take_drop_id)
qed

lemma set_interleave [simp]: "set (interleave ps xs) = set xs"
  by (induction ps xs rule: interleave.induct) (simp_all add: Let_def set_insert_at del: set_append)

lemma distinct_interleave [simp]: "distinct (interleave ps xs) = distinct xs"
  by (induction ps xs rule: interleave.induct)
    (simp_all add: Let_def distinct_insert_at del: distinct_append)

lemma map_interleave: "map f (interleave ps xs) = interleave ps (map f xs)"
proof (induction ps xs rule: interleave.induct)
  case (3 p ps x xs)
  show ?case
    by (simp add: Let_def take_map [symmetric] drop_map [symmetric] "3.IH" [symmetric])
qed simp_all

text \<open>The arrival orders are the permutations of the launch order, all of them.\<close>

lemma mset_insert_at: "mset (take i ys @ x # drop i ys) = add_mset x (mset ys)"
proof -
  have "mset (take i ys) + mset (drop i ys) = mset ys"
    by (metis append_take_drop_id mset_append)
  then show ?thesis by simp
qed

lemma mset_interleave: "mset (interleave ps xs) = mset xs"
  by (induction ps xs rule: interleave.induct)
    (simp_all add: Let_def mset_insert_at del: mset_append)

lemma interleave_any_order:
  assumes "mset ys = mset xs"
  shows "\<exists>ps. interleave ps xs = ys"
  using assms
proof (induction xs arbitrary: ys)
  case Nil
  then show ?case by simp
next
  case (Cons x xs)
  from Cons.prems have "x \<in> set ys" by (metis list.set_intros(1) mset_eq_setD)
  then obtain as bs where ys: "ys = as @ x # bs" by (auto dest: split_list)
  with Cons.prems have "mset (as @ bs) = mset xs" by simp
  from Cons.IH [OF this] obtain ps where ps: "interleave ps xs = as @ bs" by blast
  have "length as mod Suc (length (as @ bs)) = length as" by simp
  with ps have "interleave (length as # ps) (x # xs) = as @ x # bs" by (simp add: Let_def)
  with ys show ?case by blast
qed

lemma reach_SucD:
  assumes "reach cond body (Suc k) s = Some t'"
  shows "\<exists>t. reach cond body k s = Some t \<and> cond t \<and> body t = (t', None)"
  using assms by (auto split: option.splits if_splits prod.splits)

lemma reach_le:
  assumes "reach cond body k s = Some t" and "j \<le> k"
  shows "\<exists>u. reach cond body j s = Some u"
  using assms
proof (induction k arbitrary: t)
  case 0
  then show ?case by simp
next
  case (Suc k)
  show ?case
  proof (cases "j = Suc k")
    case True
    with Suc.prems(1) show ?thesis by blast
  next
    case False
    with Suc.prems(2) have "j \<le> k" by simp
    moreover from reach_SucD [OF Suc.prems(1)] obtain u where "reach cond body k s = Some u" by blast
    ultimately show ?thesis using Suc.IH by blast
  qed
qed

text \<open>The history of a polling loop, from what one round does.\<close>

lemma poll_history:
  fixes rnd :: "'s \<Rightarrow> nat" and lst :: "'s \<Rightarrow> string list" and evs :: "'s \<Rightarrow> event list"
    and mk :: "nat \<Rightarrow> string \<Rightarrow> event" and keys :: "DeployManager \<Rightarrow> nat \<Rightarrow> string list"
  assumes init: "rnd s0 = 0" "lst s0 = []" "\<And>j n. mk j n \<notin> set (evs s0)"
    and step: "\<And>s s'. cond s \<Longrightarrow> body s = (s', None) \<Longrightarrow>
        rnd s' = Suc (rnd s)
        \<and> (\<exists>zs. lst s' = lst s @ zs
              \<and> set zs = (\<Union>d \<in> set (launched ds (lst s)). set (keys d (rnd s))))
        \<and> (\<forall>j n. mk j n \<in> set (evs s') \<longleftrightarrow>
              mk j n \<in> set (evs s) \<or> (j = rnd s \<and> n \<in> GetStackName ` set (launched ds (lst s))))"
    and at: "reach cond body k s0 = Some s"
  shows "rnd s = k"
    and "\<And>j n. mk j n \<in> set (evs s) \<Longrightarrow> j < k"
    and "set (lst s) =
           (\<Union>j<k. \<Union>d \<in> {d \<in> set ds. mk j (GetStackName d) \<in> set (evs s)}. set (keys d j))"
    and "\<And>j u. j \<le> k \<Longrightarrow> reach cond body j s0 = Some u \<Longrightarrow> prefix (lst u) (lst s)"
    and "\<And>j n i u. mk j n \<in> set (evs s) \<Longrightarrow> i \<le> j \<Longrightarrow> reach cond body i s0 = Some u
           \<Longrightarrow> n \<notin> set (lst u)"
proof -
  let ?rep = "\<lambda>ev j. (\<Union>d \<in> {d \<in> set ds. mk j (GetStackName d) \<in> set ev}. set (keys d j))"
  have main: "rnd s = k \<and> (\<forall>j n. mk j n \<in> set (evs s) \<longrightarrow> j < k)
      \<and> set (lst s) = (\<Union>j<k. ?rep (evs s) j)
      \<and> (\<forall>j u. j \<le> k \<longrightarrow> reach cond body j s0 = Some u \<longrightarrow> prefix (lst u) (lst s))
      \<and> (\<forall>j n i u. mk j n \<in> set (evs s) \<longrightarrow> i \<le> j \<longrightarrow> reach cond body i s0 = Some u
           \<longrightarrow> n \<notin> set (lst u))"
    using at
  proof (induction k arbitrary: s)
    case 0
    then have "s = s0" by simp
    then show ?case using init by auto
  next
    case (Suc k)
    from reach_SucD [OF Suc.prems] obtain t where t: "reach cond body k s0 = Some t" "cond t"
      "body t = (s, None)" by blast
    note IH = Suc.IH [OF t(1)]
    from IH have rt: "rnd t = k" by blast
    from IH have old: "\<And>j n. mk j n \<in> set (evs t) \<Longrightarrow> j < k" by blast
    from IH have un: "set (lst t) = (\<Union>j<k. ?rep (evs t) j)" by blast
    from IH have pre: "\<And>j u. j \<le> k \<Longrightarrow> reach cond body j s0 = Some u \<Longrightarrow> prefix (lst u) (lst t)"
      by blast
    from IH have np: "\<And>j n i u. mk j n \<in> set (evs t) \<Longrightarrow> i \<le> j \<Longrightarrow> reach cond body i s0 = Some u
           \<Longrightarrow> n \<notin> set (lst u)" by blast
    from step [OF t(2,3)] obtain zs where
      r: "rnd s = Suc (rnd t)" and l: "lst s = lst t @ zs"
      and z: "set zs = (\<Union>d \<in> set (launched ds (lst t)). set (keys d (rnd t)))"
      and e: "\<And>j n. mk j n \<in> set (evs s) \<longleftrightarrow>
              mk j n \<in> set (evs t) \<or> (j = rnd t \<and> n \<in> GetStackName ` set (launched ds (lst t)))"
      by blast
    have c1: "rnd s = Suc k" using r rt by simp
    have c2: "\<forall>j n. mk j n \<in> set (evs s) \<longrightarrow> j < Suc k"
      using e old rt by (auto simp: less_Suc_eq)
    have same: "?rep (evs s) j = ?rep (evs t) j" if "j < k" for j
      using that e rt by auto
    have nameL: "d \<in> set ds \<Longrightarrow> (GetStackName d \<in> GetStackName ` set (launched ds (lst t)))
        = (d \<in> set (launched ds (lst t)))" for d
      by (auto simp: launched_def IsStringInArray_def)
    have "{d \<in> set ds. mk k (GetStackName d) \<in> set (evs s)} = set (launched ds (lst t))"
    proof -
      have "mk k (GetStackName d) \<in> set (evs s) \<longleftrightarrow>
            GetStackName d \<in> GetStackName ` set (launched ds (lst t))" for d
        using e [of k "GetStackName d"] old [of k "GetStackName d"] rt by auto
      then show ?thesis using nameL by (auto simp: launched_def)
    qed
    then have new: "?rep (evs s) k = set zs" using z rt by simp
    have "set (lst s) = set (lst t) \<union> set zs" using l by simp
    also have "\<dots> = (\<Union>j<k. ?rep (evs s) j) \<union> ?rep (evs s) k"
      using un same new by simp
    also have "\<dots> = (\<Union>j<Suc k. ?rep (evs s) j)"
      by (simp add: lessThan_Suc Un_commute)
    finally have c3: "set (lst s) = (\<Union>j<Suc k. ?rep (evs s) j)" .
    have c4: "prefix (lst u) (lst s)" if "j \<le> Suc k" "reach cond body j s0 = Some u" for j u
    proof (cases "j = Suc k")
      case True
      with that(2) Suc.prems have "u = s" by simp
      then show ?thesis by simp
    next
      case False
      with that(1) have "j \<le> k" by simp
      from pre [OF this that(2)] show ?thesis using l by (simp add: prefix_prefix)
    qed
    have c5: "n \<notin> set (lst u)"
      if "mk j n \<in> set (evs s)" "i \<le> j" "reach cond body i s0 = Some u" for j n i u
    proof (cases "mk j n \<in> set (evs t)")
      case True
      from np [OF this that(2,3)] show ?thesis .
    next
      case False
      with e that(1) rt have j: "j = k" and n: "n \<in> GetStackName ` set (launched ds (lst t))"
        by auto
      from n have "n \<notin> set (lst t)" by (auto simp: launched_def IsStringInArray_def)
      moreover from that(2) j have "i \<le> k" by simp
      from pre [OF this that(3)] have "set (lst u) \<subseteq> set (lst t)" by (rule set_mono_prefix)
      ultimately show ?thesis by blast
    qed
    from c1 c2 c3 c4 c5 show ?case by blast
  qed
  from main show "rnd s = k" by blast
  from main show "\<And>j n. mk j n \<in> set (evs s) \<Longrightarrow> j < k" by blast
  from main show "set (lst s) = (\<Union>j<k. ?rep (evs s) j)" by blast
  from main show "\<And>j u. j \<le> k \<Longrightarrow> reach cond body j s0 = Some u \<Longrightarrow> prefix (lst u) (lst s)"
    by blast
  from main show "\<And>j n i u. mk j n \<in> set (evs s) \<Longrightarrow> i \<le> j \<Longrightarrow> reach cond body i s0 = Some u
           \<Longrightarrow> n \<notin> set (lst u)" by blast
qed

section \<open>One round of each poller\<close>

lemma set_health_reported:
  "set (health_reported ds config ev j) =
     (\<Union>d \<in> {d \<in> set ds. HealthProbe j (GetStackName d) \<in> set ev}.
        set (healthy_keys (HealthChecking d config j)))"
  by (simp add: health_reported_def healthy_keys_def)

lemma set_clean_reported:
  "set (clean_reported ds config ev j) =
     (\<Union>d \<in> {d \<in> set ds. TerminateProbe j (GetStackName d) \<in> set ev}.
        set (done_keys (TerminateChecking d config j)))"
  by (simp add: clean_reported_def done_keys_def)

lemma clean_receive_eq: "clean_receive ch dl = dl @ concat (map done_keys ch)"
  by (induction ch arbitrary: dl) simp_all

lemma health_receive_None:
  "health_receive ch hl = (hl', None) \<Longrightarrow>
     hl' = hl @ concat (map healthy_keys ch) \<and> (\<forall>ret \<in> set ch. \<not> sentinel ret)"
proof (induction ch arbitrary: hl)
  case Nil
  then show ?case by simp
next
  case (Cons ret ch)
  from Cons.prems have ns: "\<not> sentinel ret"
    and rest: "health_receive ch (hl @ healthy_keys ret) = (hl', None)"
    by (auto split: if_splits)
  from Cons.IH [OF rest] ns show ?case by simp
qed

lemma health_receive_Some:
  "health_receive ch hl = (hl', Some e) \<Longrightarrow>
     e = errors_New ''error happened while healthchecking'' \<and> (\<exists>ret \<in> set ch. sentinel ret)"
  by (induction ch arbitrary: hl) (auto split: if_splits)

lemma health_receive_sentinel:
  "\<exists>ret \<in> set ch. sentinel ret \<Longrightarrow>
     snd (health_receive ch hl) = Some (errors_New ''error happened while healthchecking'')"
  by (induction ch arbitrary: hl) auto

lemma clean_body_step:
  assumes "clean_body ds config w s = (s', r)"
  shows "r = None" and "c_round s' = Suc (c_round s)"
    and "doneStackList s' = doneStackList s
           @ concat (map done_keys (interleave (terminate_arrival w (c_round s))
               (map (\<lambda>d. TerminateChecking d config (c_round s)) (launched ds (doneStackList s)))))"
    and "done_flag s' = (done_flag s \<or> length (doneStackList s') = length ds)"
    and "TerminateProbe j n \<in> set (c_events s') \<longleftrightarrow>
           TerminateProbe j n \<in> set (c_events s)
           \<or> (j = c_round s \<and> n \<in> GetStackName ` set (launched ds (doneStackList s)))"
  using assms
  by (auto simp: clean_body_def Let_def clean_receive_eq split: if_splits)

lemma health_body_step:
  assumes "health_body ds config w s = (s', None)"
  shows "\<not> CheckTimeout (clock w (h_round s)) (StartTimestamp config) (Timeout config)"
    and "h_round s' = Suc (h_round s)"
    and "healthyStackList s' = healthyStackList s
           @ concat (map healthy_keys (interleave (health_arrival w (h_round s))
               (map (\<lambda>d. HealthChecking d config (h_round s)) (launched ds (healthyStackList s)))))"
    and "healthy s' = (healthy s \<or> length (healthyStackList s') = length ds)"
    and "HealthProbe j n \<in> set (h_events s') \<longleftrightarrow>
           HealthProbe j n \<in> set (h_events s)
           \<or> (j = h_round s \<and> n \<in> GetStackName ` set (launched ds (healthyStackList s)))"
    and "\<forall>d \<in> set (launched ds (healthyStackList s)). \<not> sentinel (HealthChecking d config (h_round s))"
  using assms
  by (auto simp: health_body_def Let_def split: if_splits prod.splits option.splits
           dest!: health_receive_None)

section \<open>Capacity validation\<close>

text \<open>
  C6: for every pair of capacity triples (old, new), if new.Min \<open>\<le>\<close> new.Desired \<open>\<le>\<close> new.Max
  and new differs from old, \<open>CheckUpdateInformation\<close> returns no error; and whenever new is
  the same triple as old it returns an error.
\<close>

theorem CheckUpdateInformation_valid_and_noop:
  "(Min_cap new \<le>s Desired_cap new \<and> Desired_cap new \<le>s Max_cap new \<and> new \<noteq> old
      \<longrightarrow> CheckUpdateInformation old new = None)
   \<and> CheckUpdateInformation old old \<noteq> None"
  by (auto simp add: CheckUpdateInformation_def word_sless_alt word_sle_eq)

theorem CheckUpdateInformation_valid_and_noop_witness:
  "Min_cap \<lparr>Min_cap = 1, Max_cap = 10, Desired_cap = 5\<rparr>
     \<le>s Desired_cap \<lparr>Min_cap = 1, Max_cap = 10, Desired_cap = 5\<rparr>
   \<and> Desired_cap \<lparr>Min_cap = 1, Max_cap = 10, Desired_cap = 5\<rparr>
     \<le>s Max_cap \<lparr>Min_cap = 1, Max_cap = 10, Desired_cap = 5\<rparr>
   \<and> \<lparr>Min_cap = 1, Max_cap = 10, Desired_cap = 5\<rparr>
     \<noteq> \<lparr>Min_cap = 1, Max_cap = 10, Desired_cap = 3\<rparr>
   \<and> CheckUpdateInformation \<lparr>Min_cap = 1, Max_cap = 10, Desired_cap = 3\<rparr>
         \<lparr>Min_cap = 1, Max_cap = 10, Desired_cap = 5\<rparr> = None
   \<and> CheckUpdateInformation \<lparr>Min_cap = 1, Max_cap = 10, Desired_cap = 3\<rparr>
         \<lparr>Min_cap = 1, Max_cap = 10, Desired_cap = 3\<rparr> \<noteq> None"
  using CheckUpdateInformation_valid_and_noop
    [of "\<lparr>Min_cap = 1, Max_cap = 10, Desired_cap = 5\<rparr>"
        "\<lparr>Min_cap = 1, Max_cap = 10, Desired_cap = 3\<rparr>"]
  by (simp add: word_sle_eq)

text \<open>
  C7: for every new capacity triple that breaks at least one of the rules
  new.Min > new.Max, new.Min > new.Desired, new.Desired > new.Max, whatever the old
  triple is, \<open>CheckUpdateInformation\<close> returns the error of the first rule broken, in that
  order.
\<close>

theorem CheckUpdateInformation_first_violated:
  assumes "Max_cap new <s Min_cap new \<or> Desired_cap new <s Min_cap new
           \<or> Max_cap new <s Desired_cap new"
  shows "CheckUpdateInformation old new = first_violated new
         \<and> first_violated new =
           Some (if Max_cap new <s Min_cap new
                 then errors_New ''minimum value cannot be larger than maximum value''
                 else if Desired_cap new <s Min_cap new
                 then errors_New ''desired value cannot be smaller than maximum value''
                 else errors_New ''desired value cannot be larger than max value'')"
  using assms by (auto simp add: CheckUpdateInformation_def first_violated_def capacity_rules_def)

theorem CheckUpdateInformation_first_violated_witness:
  "Max_cap \<lparr>Min_cap = 5, Max_cap = 3, Desired_cap = 1\<rparr>
     <s Min_cap \<lparr>Min_cap = 5, Max_cap = 3, Desired_cap = 1\<rparr>
   \<and> CheckUpdateInformation \<lparr>Min_cap = 0, Max_cap = 0, Desired_cap = 0\<rparr>
         \<lparr>Min_cap = 5, Max_cap = 3, Desired_cap = 1\<rparr>
       = Some (errors_New ''minimum value cannot be larger than maximum value'')"
  using CheckUpdateInformation_first_violated
    [of "\<lparr>Min_cap = 5, Max_cap = 3, Desired_cap = 1\<rparr>"
        "\<lparr>Min_cap = 0, Max_cap = 0, Desired_cap = 0\<rparr>"]
  by (simp add: word_sless_alt)

section \<open>The accumulated lists\<close>

lemma health_history:
  assumes "health_at ds config w k = Some s"
  shows "set (healthyStackList s) = (\<Union>j<k. set (health_reported ds config (h_events s) j))"
    and "\<And>j u. j \<le> k \<Longrightarrow> health_at ds config w j = Some u
           \<Longrightarrow> prefix (healthyStackList u) (healthyStackList s)"
    and "\<And>j n i u. HealthProbe j n \<in> set (h_events s) \<Longrightarrow> i \<le> j
           \<Longrightarrow> health_at ds config w i = Some u \<Longrightarrow> n \<notin> set (healthyStackList u)"
    and "h_round s = k"
proof -
  let ?cond = "\<lambda>s. \<not> healthy s" and ?body = "health_body ds config w"
  let ?keys = "\<lambda>d j. healthy_keys (HealthChecking d config j)"
  have init: "h_round health_init = 0" "healthyStackList health_init = []"
    "\<And>j n. HealthProbe j n \<notin> set (h_events health_init)"
    by (simp_all add: health_init_def)
  have step: "h_round s' = Suc (h_round s)
        \<and> (\<exists>zs. healthyStackList s' = healthyStackList s @ zs
              \<and> set zs = (\<Union>d \<in> set (launched ds (healthyStackList s)). set (?keys d (h_round s))))
        \<and> (\<forall>j n. HealthProbe j n \<in> set (h_events s') \<longleftrightarrow>
              HealthProbe j n \<in> set (h_events s)
              \<or> (j = h_round s \<and> n \<in> GetStackName ` set (launched ds (healthyStackList s))))"
    if "?cond s" "?body s = (s', None)" for s s'
    using health_body_step(2,3,5) [OF that(2)] by simp
  from assms have at: "reach ?cond ?body k health_init = Some s" by (simp add: health_at_def)
  note H = poll_history [where rnd = h_round and ?s0.0 = health_init and lst = healthyStackList
      and mk = HealthProbe and evs = h_events and cond = ?cond and body = ?body and ds = ds
      and keys = ?keys and k = k and s = s, OF init step at]
  from H(3) show "set (healthyStackList s) = (\<Union>j<k. set (health_reported ds config (h_events s) j))"
    by (simp add: set_health_reported)
  from H(4) show "\<And>j u. j \<le> k \<Longrightarrow> health_at ds config w j = Some u
           \<Longrightarrow> prefix (healthyStackList u) (healthyStackList s)"
    by (simp add: health_at_def)
  from H(5) show "\<And>j n i u. HealthProbe j n \<in> set (h_events s) \<Longrightarrow> i \<le> j
           \<Longrightarrow> health_at ds config w i = Some u \<Longrightarrow> n \<notin> set (healthyStackList u)"
    by (simp add: health_at_def)
  from H(1) show "h_round s = k" .
qed

lemma clean_history:
  assumes "clean_at ds config w k = Some s"
  shows "set (doneStackList s) = (\<Union>j<k. set (clean_reported ds config (c_events s) j))"
    and "\<And>j u. j \<le> k \<Longrightarrow> clean_at ds config w j = Some u
           \<Longrightarrow> prefix (doneStackList u) (doneStackList s)"
    and "\<And>j n i u. TerminateProbe j n \<in> set (c_events s) \<Longrightarrow> i \<le> j
           \<Longrightarrow> clean_at ds config w i = Some u \<Longrightarrow> n \<notin> set (doneStackList u)"
    and "c_round s = k"
proof -
  let ?cond = "\<lambda>s. \<not> done_flag s" and ?body = "clean_body ds config w"
  let ?keys = "\<lambda>d j. done_keys (TerminateChecking d config j)"
  have init: "c_round clean_init = 0" "doneStackList clean_init = []"
    "\<And>j n. TerminateProbe j n \<notin> set (c_events clean_init)"
    by (simp_all add: clean_init_def)
  have step: "c_round s' = Suc (c_round s)
        \<and> (\<exists>zs. doneStackList s' = doneStackList s @ zs
              \<and> set zs = (\<Union>d \<in> set (launched ds (doneStackList s)). set (?keys d (c_round s))))
        \<and> (\<forall>j n. TerminateProbe j n \<in> set (c_events s') \<longleftrightarrow>
              TerminateProbe j n \<in> set (c_events s)
              \<or> (j = c_round s \<and> n \<in> GetStackName ` set (launched ds (doneStackList s))))"
    if "?cond s" "?body s = (s', None)" for s s'
    using clean_body_step(2,3,5) [OF that(2)] by simp
  from assms have at: "reach ?cond ?body k clean_init = Some s" by (simp add: clean_at_def)
  note H = poll_history [where rnd = c_round and ?s0.0 = clean_init and lst = doneStackList
      and mk = TerminateProbe and evs = c_events and cond = ?cond and body = ?body and ds = ds
      and keys = ?keys and k = k and s = s, OF init step at]
  from H(3) show "set (doneStackList s) = (\<Union>j<k. set (clean_reported ds config (c_events s) j))"
    by (simp add: set_clean_reported)
  from H(4) show "\<And>j u. j \<le> k \<Longrightarrow> clean_at ds config w j = Some u
           \<Longrightarrow> prefix (doneStackList u) (doneStackList s)"
    by (simp add: clean_at_def)
  from H(5) show "\<And>j n i u. TerminateProbe j n \<in> set (c_events s) \<Longrightarrow> i \<le> j
           \<Longrightarrow> clean_at ds config w i = Some u \<Longrightarrow> n \<notin> set (doneStackList u)"
    by (simp add: clean_at_def)
  from H(1) show "c_round s = k" .
qed

text \<open>
  C1: in both pollers the accumulated list only grows. At the head of round \<open>k\<close> of
  either loop, the set of identifiers in the list is the union of the sets that the probes
  of rounds \<open>0, \<dots>, k - 1\<close> reported true; the list at the head of any earlier round is a
  prefix of it, so nothing inserted is ever removed; and a probe launched in round \<open>j\<close> is
  for an identifier that was in the list at the head of no round up to \<open>j\<close>, so nothing
  in the list is probed again.
\<close>

theorem done_list_monotone:
  "(health_at ds config w k = Some s \<longrightarrow>
      set (healthyStackList s) = (\<Union>j<k. set (health_reported ds config (h_events s) j))
      \<and> (\<forall>j u. j \<le> k \<and> health_at ds config w j = Some u
            \<longrightarrow> prefix (healthyStackList u) (healthyStackList s))
      \<and> (\<forall>j n i u. HealthProbe j n \<in> set (h_events s) \<and> i \<le> j
            \<and> health_at ds config w i = Some u \<longrightarrow> n \<notin> set (healthyStackList u)))
   \<and> (clean_at ds config w k = Some c \<longrightarrow>
      set (doneStackList c) = (\<Union>j<k. set (clean_reported ds config (c_events c) j))
      \<and> (\<forall>j u. j \<le> k \<and> clean_at ds config w j = Some u
            \<longrightarrow> prefix (doneStackList u) (doneStackList c))
      \<and> (\<forall>j n i u. TerminateProbe j n \<in> set (c_events c) \<and> i \<le> j
            \<and> clean_at ds config w i = Some u \<longrightarrow> n \<notin> set (doneStackList u)))"
proof (intro conjI impI allI)
  assume a: "health_at ds config w k = Some s"
  show "set (healthyStackList s) = (\<Union>j<k. set (health_reported ds config (h_events s) j))"
    by (rule health_history(1) [OF a])
  show "prefix (healthyStackList u) (healthyStackList s)"
    if "j \<le> k \<and> health_at ds config w j = Some u" for j u
    using health_history(2) [OF a] that by blast
  show "n \<notin> set (healthyStackList u)"
    if "HealthProbe j n \<in> set (h_events s) \<and> i \<le> j \<and> health_at ds config w i = Some u" for j n i u
    using health_history(3) [OF a] that by blast
next
  assume a: "clean_at ds config w k = Some c"
  show "set (doneStackList c) = (\<Union>j<k. set (clean_reported ds config (c_events c) j))"
    by (rule clean_history(1) [OF a])
  show "prefix (doneStackList u) (doneStackList c)"
    if "j \<le> k \<and> clean_at ds config w j = Some u" for j u
    using clean_history(2) [OF a] that by blast
  show "n \<notin> set (doneStackList u)"
    if "TerminateProbe j n \<in> set (c_events c) \<and> i \<le> j \<and> clean_at ds config w i = Some u" for j n i u
    using clean_history(3) [OF a] that by blast
qed


theorem done_list_monotone_witness:
  "health_at sample_deployers sample_config sample_world 2 =
     Some \<lparr>h_round = 2, healthyStackList = [''A'', ''B''], healthy = True,
            h_events = [HealthProbe 0 ''A'', HealthProbe 0 ''B'', Sleep 1, HealthProbe 1 ''B'']\<rparr>
   \<and> health_at sample_deployers sample_config sample_world 1 =
     Some \<lparr>h_round = 1, healthyStackList = [''A''], healthy = False,
            h_events = [HealthProbe 0 ''A'', HealthProbe 0 ''B'', Sleep 1]\<rparr>
   \<and> clean_at sample_deployers sample_config sample_world 2 =
     Some \<lparr>c_round = 2, doneStackList = [''A''], done_flag = False,
            c_events = [TerminateProbe 0 ''A'', TerminateProbe 0 ''B'', Sleep 1,
                        TerminateProbe 1 ''B'', Sleep 1]\<rparr>
   \<and> clean_at sample_deployers sample_config sample_world 1 =
     Some \<lparr>c_round = 1, doneStackList = [''A''], done_flag = False,
            c_events = [TerminateProbe 0 ''A'', TerminateProbe 0 ''B'', Sleep 1]\<rparr>
   \<and> {''A'', ''B''} =
       (\<Union>j<2. set (health_reported sample_deployers sample_config
          [HealthProbe 0 ''A'', HealthProbe 0 ''B'', Sleep 1, HealthProbe 1 ''B''] j))
   \<and> prefix [''A''] [''A'', ''B'']
   \<and> ''B'' \<notin> set [''A'']
   \<and> {''A''} =
       (\<Union>j<2. set (clean_reported sample_deployers sample_config
          [TerminateProbe 0 ''A'', TerminateProbe 0 ''B'', Sleep 1, TerminateProbe 1 ''B'',
           Sleep 1] j))"
proof -
  let ?S2 = "\<lparr>h_round = 2, healthyStackList = [''A'', ''B''], healthy = True,
            h_events = [HealthProbe 0 ''A'', HealthProbe 0 ''B'', Sleep 1, HealthProbe 1 ''B'']\<rparr>"
  let ?S1 = "\<lparr>h_round = 1, healthyStackList = [''A''], healthy = False,
            h_events = [HealthProbe 0 ''A'', HealthProbe 0 ''B'', Sleep 1]\<rparr>"
  let ?C2 = "\<lparr>c_round = 2, doneStackList = [''A''], done_flag = False,
            c_events = [TerminateProbe 0 ''A'', TerminateProbe 0 ''B'', Sleep 1,
                        TerminateProbe 1 ''B'', Sleep 1]\<rparr>"
  let ?C1 = "\<lparr>c_round = 1, doneStackList = [''A''], done_flag = False,
            c_events = [TerminateProbe 0 ''A'', TerminateProbe 0 ''B'', Sleep 1]\<rparr>"
  have h2: "health_at sample_deployers sample_config sample_world 2 = Some ?S2" by code_simp
  have h1: "health_at sample_deployers sample_config sample_world 1 = Some ?S1" by code_simp
  have c2: "clean_at sample_deployers sample_config sample_world 2 = Some ?C2" by code_simp
  have c1: "clean_at sample_deployers sample_config sample_world 1 = Some ?C1" by code_simp
  note T = done_list_monotone [of sample_deployers sample_config sample_world 2 ?S2 ?C2]
  note H = T [THEN conjunct1, THEN mp, OF h2]
  note C = T [THEN conjunct2, THEN mp, OF c2]
  have a: "{''A'', ''B''} =
       (\<Union>j<2. set (health_reported sample_deployers sample_config
          [HealthProbe 0 ''A'', HealthProbe 0 ''B'', Sleep 1, HealthProbe 1 ''B''] j))"
    using H [THEN conjunct1] by simp
  have b: "prefix [''A''] [''A'', ''B'']"
    using H [THEN conjunct2, THEN conjunct1, rule_format, of 1 ?S1] h1 by simp
  have c: "''B'' \<notin> set [''A'']"
    using H [THEN conjunct2, THEN conjunct2, rule_format, of 1 "''B''" 1 ?S1] h1 by simp
  have d: "{''A''} =
       (\<Union>j<2. set (clean_reported sample_deployers sample_config
          [TerminateProbe 0 ''A'', TerminateProbe 0 ''B'', Sleep 1, TerminateProbe 1 ''B'',
           Sleep 1] j))"
    using C [THEN conjunct1] by simp
  show ?thesis by (rule conjI h2 h1 c2 c1 a b c d)+
qed

section \<open>Termination convergence\<close>

lemma clean_at_progress:
  assumes "clean_at ds config w k = Some s" and "\<not> done_flag s"
  shows "clean_at ds config w (Suc k) = Some (fst (clean_body ds config w s))"
proof -
  obtain s' r where b: "clean_body ds config w s = (s', r)" by (cases "clean_body ds config w s")
  from clean_body_step(1) [OF b] have "r = None" .
  with assms b show ?thesis by (simp add: clean_at_def)
qed

lemma clean_at_SucD:
  assumes "clean_at ds config w (Suc k) = Some s'"
  shows "\<exists>s. clean_at ds config w k = Some s \<and> \<not> done_flag s
           \<and> clean_body ds config w s = (s', None)"
  using reach_SucD [of "\<lambda>s. \<not> done_flag s" "clean_body ds config w" k clean_init s'] assms
  by (simp add: clean_at_def)

text \<open>Probes that keep the contract: a single entry, under the deployer's own name.\<close>

lemma contract_keys:
  assumes "\<forall>d \<in> set xs. \<exists>b. probe d = [(GetStackName d, b)]"
  shows "concat (map (\<lambda>d. done_keys (probe d)) xs)
           = map GetStackName (filter (\<lambda>d. probe d = [(GetStackName d, True)]) xs)"
  using assms
proof (induction xs)
  case Nil
  show ?case by simp
next
  case (Cons d xs)
  from Cons.prems obtain b where b: "probe d = [(GetStackName d, b)]" by auto
  from Cons.prems have "\<forall>d \<in> set xs. \<exists>b. probe d = [(GetStackName d, b)]" by simp
  from Cons.IH [OF this] b show ?case by (simp add: done_keys_def)
qed

lemma clean_step_contract:
  assumes dn: "distinct (map GetStackName ds)"
    and ct: "\<forall>d \<in> set ds. \<forall>k. \<exists>b. TerminateChecking d config k = [(GetStackName d, b)]"
    and b: "clean_body ds config w s = (s', r)"
  shows "\<exists>zs. doneStackList s' = doneStackList s @ zs \<and> distinct zs
           \<and> set zs = {GetStackName d |d. d \<in> set ds \<and> GetStackName d \<notin> set (doneStackList s)
                          \<and> TerminateChecking d config (c_round s) = [(GetStackName d, True)]}"
proof -
  let ?L = "launched ds (doneStackList s)"
  let ?f = "\<lambda>d. TerminateChecking d config (c_round s)"
  let ?L' = "interleave (terminate_arrival w (c_round s)) ?L"
  let ?zs = "map GetStackName (filter (\<lambda>d. ?f d = [(GetStackName d, True)]) ?L')"
  have setL: "set ?L' = {d \<in> set ds. GetStackName d \<notin> set (doneStackList s)}"
    by (auto simp: launched_def IsStringInArray_def)
  have "distinct (map GetStackName ?L)" using dn by (simp add: launched_def distinct_map_filter)
  then have "distinct (interleave (terminate_arrival w (c_round s)) (map GetStackName ?L))"
    by simp
  then have dL': "distinct (map GetStackName ?L')" by (simp add: map_interleave)
  have c: "\<forall>d \<in> set ?L'. \<exists>b. ?f d = [(GetStackName d, b)]" using ct setL by auto
  have "concat (map done_keys (interleave (terminate_arrival w (c_round s)) (map ?f ?L)))
        = concat (map (\<lambda>d. done_keys (?f d)) ?L')"
    by (simp add: map_interleave [symmetric] comp_def)
  also have "\<dots> = ?zs" by (rule contract_keys [OF c])
  finally have "doneStackList s' = doneStackList s @ ?zs"
    using clean_body_step(3) [OF b] by simp
  moreover have "distinct ?zs" using dL' by (rule distinct_map_filter)
  moreover have "set ?zs = {GetStackName d |d. d \<in> set ds \<and> GetStackName d \<notin> set (doneStackList s)
                          \<and> ?f d = [(GetStackName d, True)]}"
    using setL by auto
  ultimately show ?thesis by blast
qed

lemma clean_contract_inv:
  assumes dn: "distinct (map GetStackName ds)"
    and ct: "\<forall>d \<in> set ds. \<forall>k. \<exists>b. TerminateChecking d config k = [(GetStackName d, b)]"
    and at: "clean_at ds config w k = Some s"
  shows "distinct (doneStackList s)
    \<and> set (doneStackList s) = {GetStackName d |d. d \<in> set ds
          \<and> (\<exists>j<k. TerminateChecking d config j = [(GetStackName d, True)])}
    \<and> (done_flag s \<longleftrightarrow> 0 < k \<and> length (doneStackList s) = length ds)"
  using at
proof (induction k arbitrary: s)
  case 0
  then have "s = clean_init" by (simp add: clean_at_def)
  then show ?case by (simp add: clean_init_def)
next
  case (Suc k)
  from clean_at_SucD [OF Suc.prems] obtain t where t: "clean_at ds config w k = Some t"
    "\<not> done_flag t" "clean_body ds config w t = (s, None)" by blast
  note IH = Suc.IH [OF t(1)]
  from clean_history(4) [OF t(1)] have rt: "c_round t = k" .
  from clean_step_contract [OF dn ct t(3)] obtain zs where
    l: "doneStackList s = doneStackList t @ zs" and dz: "distinct zs"
    and z: "set zs = {GetStackName d |d. d \<in> set ds \<and> GetStackName d \<notin> set (doneStackList t)
                          \<and> TerminateChecking d config k = [(GetStackName d, True)]}"
    using rt by auto
  have c1: "distinct (doneStackList s)" using l dz z IH by auto
  have c2: "set (doneStackList s) = {GetStackName d |d. d \<in> set ds
          \<and> (\<exists>j<Suc k. TerminateChecking d config j = [(GetStackName d, True)])}"
    (is "?A = ?B")
  proof
    show "?A \<subseteq> ?B" using l z IH by (auto simp: less_Suc_eq)
    show "?B \<subseteq> ?A"
    proof
      fix n assume "n \<in> ?B"
      then obtain d j where d: "n = GetStackName d" "d \<in> set ds" "j < Suc k"
        "TerminateChecking d config j = [(GetStackName d, True)]" by auto
      show "n \<in> ?A"
      proof (cases "n \<in> set (doneStackList t)")
        case True
        then show ?thesis using l by simp
      next
        case False
        with d IH have "\<not> j < k" by auto
        with d(3) have "j = k" by simp
        with d False z have "n \<in> set zs" by auto
        then show ?thesis using l by simp
      qed
    qed
  qed
  have c3: "done_flag s \<longleftrightarrow> 0 < Suc k \<and> length (doneStackList s) = length ds"
    using clean_body_step(4) [OF t(3)] t(2) by simp
  from c1 c2 c3 show ?case by blast
qed

lemma clean_complete_iff:
  assumes dn: "distinct (map GetStackName ds)"
    and ct: "\<forall>d \<in> set ds. \<forall>k. \<exists>b. TerminateChecking d config k = [(GetStackName d, b)]"
    and at: "clean_at ds config w k = Some s"
  shows "length (doneStackList s) = length ds \<longleftrightarrow>
           (\<forall>d \<in> set ds. \<exists>j<k. TerminateChecking d config j = [(GetStackName d, True)])"
proof -
  let ?N = "set (map GetStackName ds)"
  from clean_contract_inv [OF dn ct at] have di: "distinct (doneStackList s)"
    and se: "set (doneStackList s) = {GetStackName d |d. d \<in> set ds
          \<and> (\<exists>j<k. TerminateChecking d config j = [(GetStackName d, True)])}" by blast+
  have sub: "set (doneStackList s) \<subseteq> ?N" using se by auto
  have cardN: "card ?N = length ds" using distinct_card [OF dn] by simp
  have cardL: "card (set (doneStackList s)) = length (doneStackList s)" using di by (rule distinct_card)
  have inj: "inj_on GetStackName (set ds)" using dn by (simp add: distinct_map)
  have "length (doneStackList s) = length ds \<longleftrightarrow> set (doneStackList s) = ?N"
  proof
    assume "length (doneStackList s) = length ds"
    with cardN cardL have "card (set (doneStackList s)) = card ?N" by simp
    with sub show "set (doneStackList s) = ?N" by (simp add: card_subset_eq)
  next
    assume "set (doneStackList s) = ?N"
    with cardN cardL show "length (doneStackList s) = length ds" by simp
  qed
  also have "\<dots> \<longleftrightarrow> (\<forall>d \<in> set ds. \<exists>j<k. TerminateChecking d config j = [(GetStackName d, True)])"
  proof
    assume eq: "set (doneStackList s) = ?N"
    show "\<forall>d \<in> set ds. \<exists>j<k. TerminateChecking d config j = [(GetStackName d, True)]"
    proof
      fix d assume d: "d \<in> set ds"
      then have "GetStackName d \<in> set (doneStackList s)" using eq by simp
      with se obtain d' where d': "GetStackName d = GetStackName d'" "d' \<in> set ds"
        "\<exists>j<k. TerminateChecking d' config j = [(GetStackName d', True)]" by auto
      from inj d d'(1,2) have "d = d'" by (auto dest: inj_onD)
      with d'(3) show "\<exists>j<k. TerminateChecking d config j = [(GetStackName d, True)]" by simp
    qed
  next
    assume "\<forall>d \<in> set ds. \<exists>j<k. TerminateChecking d config j = [(GetStackName d, True)]"
    then show "set (doneStackList s) = ?N" using se by auto
  qed
  finally show ?thesis .
qed

lemma eventually_bound:
  assumes "\<forall>d \<in> set ds. \<exists>k::nat. P d k"
  shows "\<exists>K. \<forall>d \<in> set ds. \<exists>j<K. P d j"
  using assms
proof (induction ds)
  case Nil
  show ?case by simp
next
  case (Cons d ds)
  from Cons.prems obtain k where k: "P d k" by auto
  from Cons obtain K where K: "\<forall>d \<in> set ds. \<exists>j<K. P d j" by auto
  have "\<forall>x \<in> set (d # ds). \<exists>j<Suc (max k K). P x j"
  proof
    fix x assume "x \<in> set (d # ds)"
    then consider "x = d" | "x \<in> set ds" by auto
    then show "\<exists>j<Suc (max k K). P x j"
    proof cases
      case 1
      with k show ?thesis by (intro exI [of _ k]) simp
    next
      case 2
      with K obtain j where "j < K" "P x j" by blast
      then show ?thesis by (intro exI [of _ j]) simp
    qed
  qed
  then show ?case by blast
qed

lemma clean_body_clock: "clean_body ds config (w\<lparr>clock := c\<rparr>) = clean_body ds config w"
  by (rule ext) (simp add: clean_body_def)

text \<open>
  C10: \<open>cleanChecking\<close> has no exit that produces an error: whatever the deployers, the
  configuration, the probe results and the arrival orders, when it returns it returns
  \<open>nil\<close>.
\<close>

theorem cleanChecking_returns_nil:
  "cleanChecking ds config w = Some (tr, res) \<Longrightarrow> res = None"
proof -
  assume "cleanChecking ds config w = Some (tr, res)"
  then obtain s where l: "for_loop (\<lambda>s. \<not> done_flag s) (clean_body ds config w) clean_init = Some (s, res)"
    by (auto simp: cleanChecking_def clean_loop_def)
  from for_loop_SomeD [OF l] obtain k t where
    "(\<not> \<not> done_flag t \<and> (s, res) = (t, None))
     \<or> (\<not> done_flag t \<and> (\<exists>e. snd (s, res) = Some e) \<and> clean_body ds config w t = (s, res))"
    by blast
  then show "res = None"
  proof
    assume "\<not> \<not> done_flag t \<and> (s, res) = (t, None)"
    then show ?thesis by simp
  next
    assume "\<not> done_flag t \<and> (\<exists>e. snd (s, res) = Some e) \<and> clean_body ds config w t = (s, res)"
    then have "clean_body ds config w t = (s, res)" by simp
    from clean_body_step(1) [OF this] show ?thesis .
  qed
qed

theorem cleanChecking_returns_nil_witness:
  "cleanChecking sample_deployers sample_config sample_world =
     Some ([TerminateProbe 0 ''A'', TerminateProbe 0 ''B'', Sleep 1, TerminateProbe 1 ''B'',
            Sleep 1, TerminateProbe 2 ''B'', Sleep 1, TerminateProbe 3 ''B''], None)"
proof -
  have "cleanChecking sample_deployers sample_config sample_world =
     Some ([TerminateProbe 0 ''A'', TerminateProbe 0 ''B'', Sleep 1, TerminateProbe 1 ''B'',
            Sleep 1, TerminateProbe 2 ''B'', Sleep 1, TerminateProbe 3 ''B''], None)"
    by code_simp
  then obtain res where e: "cleanChecking sample_deployers sample_config sample_world =
     Some ([TerminateProbe 0 ''A'', TerminateProbe 0 ''B'', Sleep 1, TerminateProbe 1 ''B'',
            Sleep 1, TerminateProbe 2 ''B'', Sleep 1, TerminateProbe 3 ''B''], res)"
    by blast
  from cleanChecking_returns_nil [OF e] e show ?thesis by simp
qed

text \<open>
  C4, amended: \<open>cleanChecking\<close> has no deadline. For deployers with pairwise distinct
  stack names, whose termination probes answer as their contract says, with the single
  entry for their own name: if every deployer reports true in some round, the loop ends
  and returns \<open>nil\<close>; if some deployer never reports true, it runs forever; and what the
  clock reads changes nothing, however much time has passed. The names have to be
  distinct, because the loop skips deployers by name and ends on the length of the list.
\<close>

theorem cleanChecking_converges:
  assumes dn: "distinct (map GetStackName ds)"
    and ct: "\<forall>d \<in> set ds. \<forall>k. \<exists>b. TerminateChecking d config k = [(GetStackName d, b)]"
  shows "((\<forall>d \<in> set ds. \<exists>k. TerminateChecking d config k = [(GetStackName d, True)])
            \<longrightarrow> (\<exists>tr. cleanChecking ds config w = Some (tr, None)))
       \<and> ((\<exists>d \<in> set ds. \<forall>k. TerminateChecking d config k \<noteq> [(GetStackName d, True)])
            \<longrightarrow> cleanChecking ds config w = None)
       \<and> cleanChecking ds config (w\<lparr>clock := c\<rparr>) = cleanChecking ds config w"
proof (intro conjI impI)
  let ?true = "\<lambda>d k. TerminateChecking d config k = [(GetStackName d, True)]"
  assume ev: "\<forall>d \<in> set ds. \<exists>k. ?true d k"
  from eventually_bound [OF this] obtain K where K: "\<forall>d \<in> set ds. \<exists>j<K. ?true d j" by blast
  have run: "(\<exists>k\<le>n. \<exists>s. clean_at ds config w k = Some s \<and> done_flag s)
             \<or> (\<exists>s. clean_at ds config w n = Some s \<and> \<not> done_flag s)" for n
  proof (induction n)
    case 0
    have "clean_at ds config w 0 = Some clean_init \<and> \<not> done_flag clean_init"
      by (simp add: clean_at_def clean_init_def)
    then show ?case by blast
  next
    case (Suc n)
    from Suc show ?case
    proof
      assume "\<exists>k\<le>n. \<exists>s. clean_at ds config w k = Some s \<and> done_flag s"
      then obtain k s where "k \<le> Suc n" "clean_at ds config w k = Some s \<and> done_flag s"
        using le_SucI by blast
      then show ?thesis by blast
    next
      assume "\<exists>s. clean_at ds config w n = Some s \<and> \<not> done_flag s"
      then obtain s where s: "clean_at ds config w n = Some s" "\<not> done_flag s" by blast
      let ?s' = "fst (clean_body ds config w s)"
      from clean_at_progress [OF s] have s': "clean_at ds config w (Suc n) = Some ?s'" .
      show ?thesis
      proof (cases "done_flag ?s'")
        case True
        with s' have "Suc n \<le> Suc n \<and> clean_at ds config w (Suc n) = Some ?s' \<and> done_flag ?s'" by simp
        then show ?thesis by blast
      next
        case False
        with s' show ?thesis by blast
      qed
    qed
  qed
  have "\<not> (\<exists>s. clean_at ds config w (Suc K) = Some s \<and> \<not> done_flag s)"
  proof
    assume "\<exists>s. clean_at ds config w (Suc K) = Some s \<and> \<not> done_flag s"
    then obtain s where s: "clean_at ds config w (Suc K) = Some s" "\<not> done_flag s" by blast
    from K have "\<forall>d \<in> set ds. \<exists>j<Suc K. ?true d j" using less_SucI by blast
    with clean_complete_iff [OF dn ct s(1)] have "length (doneStackList s) = length ds" by simp
    with clean_contract_inv [OF dn ct s(1)] have "done_flag s" by simp
    with s(2) show False by simp
  qed
  with run [of "Suc K"] obtain k s where "clean_at ds config w k = Some s" "done_flag s" by blast
  then have "for_loop (\<lambda>s. \<not> done_flag s) (clean_body ds config w) clean_init = Some (s, None)"
    by (intro for_loop_exit [of _ _ k]) (simp_all add: clean_at_def)
  then have "cleanChecking ds config w = Some (c_events s, None)"
    by (simp add: cleanChecking_def clean_loop_def)
  then show "\<exists>tr. cleanChecking ds config w = Some (tr, None)" by blast
next
  let ?true = "\<lambda>d k. TerminateChecking d config k = [(GetStackName d, True)]"
  assume "\<exists>d \<in> set ds. \<forall>k. \<not> ?true d k"
  then obtain d0 where d0: "d0 \<in> set ds" "\<And>k. \<not> ?true d0 k" by blast
  have run: "\<exists>s. clean_at ds config w k = Some s \<and> \<not> done_flag s" for k
  proof (induction k)
    case 0
    have "clean_at ds config w 0 = Some clean_init \<and> \<not> done_flag clean_init"
      by (simp add: clean_at_def clean_init_def)
    then show ?case by blast
  next
    case (Suc k)
    then obtain s where s: "clean_at ds config w k = Some s" "\<not> done_flag s" by blast
    let ?s' = "fst (clean_body ds config w s)"
    from clean_at_progress [OF s] have s': "clean_at ds config w (Suc k) = Some ?s'" .
    from clean_complete_iff [OF dn ct s'] d0 have "length (doneStackList ?s') \<noteq> length ds" by blast
    with clean_contract_inv [OF dn ct s'] have "\<not> done_flag ?s'" by simp
    with s' show ?case by blast
  qed
  then have "\<And>k. \<exists>t. reach (\<lambda>s. \<not> done_flag s) (clean_body ds config w) k clean_init = Some t
               \<and> \<not> done_flag t"
    by (simp add: clean_at_def)
  from for_loop_diverges [of "\<lambda>s. \<not> done_flag s" "clean_body ds config w" clean_init, OF this]
  show "cleanChecking ds config w = None" by (simp add: cleanChecking_def clean_loop_def)
next
  show "cleanChecking ds config (w\<lparr>clock := c\<rparr>) = cleanChecking ds config w"
    by (simp add: cleanChecking_def clean_loop_def clean_body_clock)
qed

section \<open>Health convergence\<close>

lemma health_body_Some:
  assumes "health_body ds config w s = (s', Some e)"
  shows "(CheckTimeout (clock w (h_round s)) (StartTimestamp config) (Timeout config)
            \<and> e = timeout_exceeded (Timeout config) \<and> s' = s)
         \<or> (\<not> CheckTimeout (clock w (h_round s)) (StartTimestamp config) (Timeout config)
            \<and> e = errors_New ''error happened while healthchecking''
            \<and> (\<exists>d \<in> set (launched ds (healthyStackList s)).
                  sentinel (HealthChecking d config (h_round s))))"
  using assms
  by (auto simp: health_body_def Let_def split: if_splits prod.splits option.splits
           dest!: health_receive_Some)

lemma health_body_timeout:
  assumes "CheckTimeout (clock w (h_round s)) (StartTimestamp config) (Timeout config)"
  shows "health_body ds config w s = (s, Some (timeout_exceeded (Timeout config)))"
  using assms by (simp add: health_body_def)

lemma health_body_sentinel:
  assumes "\<not> CheckTimeout (clock w (h_round s)) (StartTimestamp config) (Timeout config)"
    and "d \<in> set ds" and "GetStackName d \<notin> set (healthyStackList s)"
    and "sentinel (HealthChecking d config (h_round s))"
  shows "snd (health_body ds config w s) = Some (errors_New ''error happened while healthchecking'')"
proof -
  let ?ch = "interleave (health_arrival w (h_round s))
               (map (\<lambda>d. HealthChecking d config (h_round s)) (launched ds (healthyStackList s)))"
  from assms(2,3) have "d \<in> set (launched ds (healthyStackList s))"
    by (simp add: launched_def IsStringInArray_def)
  with assms(4) have "\<exists>ret \<in> set ?ch. sentinel ret" by auto
  from health_receive_sentinel [OF this, of "healthyStackList s"] assms(1)
  show ?thesis by (auto simp: health_body_def Let_def split: prod.splits option.splits)
qed

lemma health_at_SucD:
  assumes "health_at ds config w (Suc k) = Some s'"
  shows "\<exists>s. health_at ds config w k = Some s \<and> \<not> healthy s
           \<and> health_body ds config w s = (s', None)"
  using reach_SucD [of "\<lambda>s. \<not> healthy s" "health_body ds config w" k health_init s'] assms
  by (simp add: health_at_def)

lemma health_at_healthy:
  assumes "health_at ds config w k = Some s"
  shows "healthy s \<longleftrightarrow> 0 < k \<and> length (healthyStackList s) = length ds"
proof (cases k)
  case 0
  with assms have "s = health_init" by (simp add: health_at_def)
  with 0 show ?thesis by (simp add: health_init_def)
next
  case (Suc j)
  with health_at_SucD assms obtain t where t: "\<not> healthy t" "health_body ds config w t = (s, None)"
    by blast
  from health_body_step(4) [OF t(2)] t(1) Suc show ?thesis by simp
qed

text \<open>
  C3: if the loop of \<open>doHealthchecking\<close> enters round \<open>k\<close> (it is the first round, or the
  healthy list is not yet as long as the deployer list, and the deadline check of the
  round passes) and the result map of a probe launched in that round carries the error
  key with value true, then \<open>doHealthchecking\<close> returns the healthcheck error in that
  round (the loop never gets to the head of round \<open>k + 1\<close>), whatever the other probes of
  the round report and in whatever order the results arrive.
\<close>

theorem doHealthchecking_sentinel:
  assumes "health_at ds config w k = Some s"
    and "k = 0 \<or> length (healthyStackList s) \<noteq> length ds"
    and "\<not> CheckTimeout (clock w k) (StartTimestamp config) (Timeout config)"
    and "d \<in> set ds" and "GetStackName d \<notin> set (healthyStackList s)"
    and "sentinel (HealthChecking d config k)"
  shows "(\<exists>tr. doHealthchecking ds config w =
           Some (tr, Some (errors_New ''error happened while healthchecking'')))
         \<and> health_at ds config w (Suc k) = None"
proof -
  from health_history(4) [OF assms(1)] have r: "h_round s = k" .
  from health_at_healthy [OF assms(1)] assms(2) have nh: "\<not> healthy s" by auto
  obtain s' where b: "health_body ds config w s =
      (s', Some (errors_New ''error happened while healthchecking''))"
    using health_body_sentinel [of w s config d ds] assms(3-6) r
    by (cases "health_body ds config w s") auto
  from assms(1) have "reach (\<lambda>s. \<not> healthy s) (health_body ds config w) k health_init = Some s"
    by (simp add: health_at_def)
  from for_loop_return [OF this nh b]
  have "doHealthchecking ds config w =
      Some (h_events s', Some (errors_New ''error happened while healthchecking''))"
    by (simp add: doHealthchecking_def health_loop_def)
  then have "\<exists>tr. doHealthchecking ds config w =
           Some (tr, Some (errors_New ''error happened while healthchecking''))"
    by blast
  moreover from assms(1) nh b have "health_at ds config w (Suc k) = None"
    by (simp add: health_at_def)
  ultimately show ?thesis by blast
qed

text \<open>
  C2, amended: \<open>doHealthchecking\<close> returns the timeout error if and only if the loop gets
  to the head of some round (the first round, or a later one with the healthy list not
  yet as long as the deployer list) at which the clock reading minus
  \<open>config.StartTimestamp\<close> is more than \<open>config.Timeout\<close>. The reference timestamp is the
  field of the configuration that the caller passes in, the same in every round; it is
  not the time of loop entry.
\<close>

theorem doHealthchecking_timeout:
  "(\<exists>tr. doHealthchecking ds config w = Some (tr, Some (timeout_exceeded (Timeout config))))
   \<longleftrightarrow> (\<exists>k s. health_at ds config w k = Some s
          \<and> (k = 0 \<or> length (healthyStackList s) \<noteq> length ds)
          \<and> Timeout config < clock w k - StartTimestamp config)"
proof
  assume "\<exists>tr. doHealthchecking ds config w = Some (tr, Some (timeout_exceeded (Timeout config)))"
  then obtain s' where l: "for_loop (\<lambda>s. \<not> healthy s) (health_body ds config w) health_init
      = Some (s', Some (timeout_exceeded (Timeout config)))"
    by (auto simp: doHealthchecking_def health_loop_def)
  from for_loop_SomeD [OF l] obtain k t where
    at: "reach (\<lambda>s. \<not> healthy s) (health_body ds config w) k health_init = Some t"
    and nh: "\<not> healthy t"
    and b: "health_body ds config w t = (s', Some (timeout_exceeded (Timeout config)))"
    by auto
  from at have at': "health_at ds config w k = Some t" by (simp add: health_at_def)
  from health_body_Some [OF b]
  have "CheckTimeout (clock w (h_round t)) (StartTimestamp config) (Timeout config)" by auto
  with health_history(4) [OF at'] have "Timeout config < clock w k - StartTimestamp config"
    by (simp add: CheckTimeout_def)
  moreover from health_at_healthy [OF at'] nh
  have "k = 0 \<or> length (healthyStackList t) \<noteq> length ds" by auto
  ultimately show "\<exists>k s. health_at ds config w k = Some s
          \<and> (k = 0 \<or> length (healthyStackList s) \<noteq> length ds)
          \<and> Timeout config < clock w k - StartTimestamp config"
    using at' by blast
next
  assume "\<exists>k s. health_at ds config w k = Some s
          \<and> (k = 0 \<or> length (healthyStackList s) \<noteq> length ds)
          \<and> Timeout config < clock w k - StartTimestamp config"
  then obtain k s where at: "health_at ds config w k = Some s"
    and inc: "k = 0 \<or> length (healthyStackList s) \<noteq> length ds"
    and late: "Timeout config < clock w k - StartTimestamp config" by blast
  from health_at_healthy [OF at] inc have nh: "\<not> healthy s" by auto
  from late health_history(4) [OF at]
  have "CheckTimeout (clock w (h_round s)) (StartTimestamp config) (Timeout config)"
    by (simp add: CheckTimeout_def)
  from health_body_timeout [OF this]
  have b: "health_body ds config w s = (s, Some (timeout_exceeded (Timeout config)))" .
  from at have "reach (\<lambda>s. \<not> healthy s) (health_body ds config w) k health_init = Some s"
    by (simp add: health_at_def)
  from for_loop_return [OF this nh b]
  have "doHealthchecking ds config w = Some (h_events s, Some (timeout_exceeded (Timeout config)))"
    by (simp add: doHealthchecking_def health_loop_def)
  then show "\<exists>tr. doHealthchecking ds config w = Some (tr, Some (timeout_exceeded (Timeout config)))"
    by blast
qed

section \<open>The poller properties on the sample run\<close>

theorem cleanChecking_converges_witness:
  "(\<exists>tr. cleanChecking sample_deployers sample_config sample_late_world = Some (tr, None))
   \<and> cleanChecking [sample_failing] sample_config sample_world = None
   \<and> cleanChecking sample_deployers sample_config (sample_world\<lparr>clock := (\<lambda>k. 1000000)\<rparr>)
       = cleanChecking sample_deployers sample_config sample_world"
proof -
  have dn: "distinct (map GetStackName sample_deployers)"
    by (simp add: sample_deployers_def sample_deployer_def)
  have ct: "\<forall>d \<in> set sample_deployers. \<forall>k. \<exists>b.
      TerminateChecking d sample_config k = [(GetStackName d, b)]"
    by (auto simp: sample_deployers_def sample_deployer_def)
  have ev: "\<forall>d \<in> set sample_deployers. \<exists>k.
      TerminateChecking d sample_config k = [(GetStackName d, True)]"
  proof -
    have "TerminateChecking (sample_deployer ''A'' 0 0) sample_config 0 = [(''A'', True)]"
      and "TerminateChecking (sample_deployer ''B'' 1 3) sample_config 3 = [(''B'', True)]"
      by (simp_all add: sample_deployer_def)
    then have "\<exists>k. TerminateChecking (sample_deployer ''A'' 0 0) sample_config k
                 = [(GetStackName (sample_deployer ''A'' 0 0), True)]"
      and "\<exists>k. TerminateChecking (sample_deployer ''B'' 1 3) sample_config k
                 = [(GetStackName (sample_deployer ''B'' 1 3), True)]"
      by (intro exI [of _ 0], simp add: sample_deployer_def)
         (intro exI [of _ 3], simp add: sample_deployer_def)
    then show ?thesis by (simp add: sample_deployers_def)
  qed
  have dn': "distinct (map GetStackName [sample_failing])" by simp
  have ct': "\<forall>d \<in> set [sample_failing]. \<forall>k. \<exists>b.
      TerminateChecking d sample_config k = [(GetStackName d, b)]"
    by (auto simp: sample_failing_def)
  have nv: "\<exists>d \<in> set [sample_failing]. \<forall>k.
      TerminateChecking d sample_config k \<noteq> [(GetStackName d, True)]"
    by (simp add: sample_failing_def)
  note a = cleanChecking_converges [where w = sample_late_world, OF dn ct, THEN conjunct1,
      THEN mp, OF ev]
  note b = cleanChecking_converges [where w = sample_world, OF dn' ct', THEN conjunct2,
      THEN conjunct1, THEN mp, OF nv]
  note c = cleanChecking_converges [where w = sample_world and c = "\<lambda>k. 1000000", OF dn ct,
      THEN conjunct2, THEN conjunct2]
  show ?thesis by (rule conjI a b c)+
qed

lemma sample_duplicates_stuck:
  "\<exists>t. clean_at sample_duplicates sample_config sample_world (Suc k) = Some t
       \<and> \<not> done_flag t \<and> doneStackList t = [''A'']"
proof (induction k)
  case 0
  have "clean_at sample_duplicates sample_config sample_world (Suc 0) =
      Some \<lparr>c_round = 1, doneStackList = [''A''], done_flag = False,
            c_events = [TerminateProbe 0 ''A'', TerminateProbe 0 ''A'', Sleep 1]\<rparr>"
    by code_simp
  then show ?case by simp
next
  case (Suc k)
  then obtain t where t: "clean_at sample_duplicates sample_config sample_world (Suc k) = Some t"
    "\<not> done_flag t" "doneStackList t = [''A'']" by blast
  let ?t' = "fst (clean_body sample_duplicates sample_config sample_world t)"
  from clean_at_progress [OF t(1,2)]
  have "clean_at sample_duplicates sample_config sample_world (Suc (Suc k)) = Some ?t'" .
  moreover have "launched sample_duplicates [''A''] = []"
    by (simp add: launched_def sample_duplicates_def sample_deployer_def IsStringInArray_def)
  then have "\<not> done_flag ?t' \<and> doneStackList ?t' = [''A'']"
    using t(2,3) by (simp add: clean_body_def sample_duplicates_def)
  ultimately show ?case by blast
qed

text \<open>
  Without distinct names the loop may never end although every deployer reports true in
  some round. Of two deployers named A, the first reports true in round 0 and the second
  would in round 1; after round 0 the list holds A, no probe is launched again, and the
  list stays shorter than the deployer list for ever.
\<close>

theorem cleanChecking_converges_counterexample:
  "TerminateChecking (sample_deployer ''A'' 0 0) sample_config 0 = [(''A'', True)]
   \<and> TerminateChecking (sample_deployer ''A'' 0 1) sample_config 1 = [(''A'', True)]
   \<and> cleanChecking [sample_deployer ''A'' 0 0, sample_deployer ''A'' 0 1] sample_config
        sample_world = None"
proof -
  have a: "TerminateChecking (sample_deployer ''A'' 0 0) sample_config 0 = [(''A'', True)]"
    by (simp add: sample_deployer_def)
  have b: "TerminateChecking (sample_deployer ''A'' 0 1) sample_config 1 = [(''A'', True)]"
    by (simp add: sample_deployer_def)
  have "\<exists>t. reach (\<lambda>s. \<not> done_flag s) (clean_body sample_duplicates sample_config sample_world)
              k clean_init = Some t \<and> \<not> done_flag t" for k
  proof (cases k)
    case 0
    then show ?thesis by (simp add: clean_init_def)
  next
    case (Suc j)
    with sample_duplicates_stuck [of j] show ?thesis by (auto simp: clean_at_def)
  qed
  from for_loop_diverges [of "\<lambda>s. \<not> done_flag s"
      "clean_body sample_duplicates sample_config sample_world" clean_init, OF this]
  have "cleanChecking sample_duplicates sample_config sample_world = None"
    by (simp add: cleanChecking_def clean_loop_def)
  then have c: "cleanChecking [sample_deployer ''A'' 0 0, sample_deployer ''A'' 0 1] sample_config
        sample_world = None"
    by (simp add: sample_duplicates_def)
  show ?thesis by (rule conjI a b c)+
qed

theorem doHealthchecking_sentinel_witness:
  "\<exists>tr. doHealthchecking (sample_deployers @ [sample_failing]) sample_config sample_world =
           Some (tr, Some (errors_New ''error happened while healthchecking''))"
proof -
  have 1: "health_at (sample_deployers @ [sample_failing]) sample_config sample_world 0
             = Some health_init"
    by (simp add: health_at_def)
  have 2: "(0::nat) = 0 \<or> length (healthyStackList health_init)
             \<noteq> length (sample_deployers @ [sample_failing])"
    by simp
  have 3: "\<not> CheckTimeout (clock sample_world 0) (StartTimestamp sample_config)
             (Timeout sample_config)"
    by (simp add: CheckTimeout_def sample_world_def sample_config_def)
  have 4: "sample_failing \<in> set (sample_deployers @ [sample_failing])" by simp
  have 5: "GetStackName sample_failing \<notin> set (healthyStackList health_init)"
    by (simp add: health_init_def)
  have 6: "sentinel (HealthChecking sample_failing sample_config 0)"
    by (simp add: sentinel_def sample_failing_def)
  from doHealthchecking_sentinel [OF 1 2 3 4 5 6, THEN conjunct1] show ?thesis .
qed

theorem doHealthchecking_timeout_witness:
  "\<exists>tr. doHealthchecking sample_deployers sample_config sample_late_world =
           Some (tr, Some (timeout_exceeded (Timeout sample_config)))"
proof -
  have "health_at sample_deployers sample_config sample_late_world 0 = Some health_init
        \<and> ((0::nat) = 0 \<or> length (healthyStackList health_init) \<noteq> length sample_deployers)
        \<and> Timeout sample_config < clock sample_late_world 0 - StartTimestamp sample_config"
    by (simp add: health_at_def sample_late_world_def sample_config_def)
  then have "\<exists>k s. health_at sample_deployers sample_config sample_late_world k = Some s
        \<and> (k = 0 \<or> length (healthyStackList s) \<noteq> length sample_deployers)
        \<and> Timeout sample_config < clock sample_late_world k - StartTimestamp sample_config"
    by blast
  then show ?thesis
    by (rule doHealthchecking_timeout [of sample_deployers sample_config sample_late_world,
          THEN iffD2])
qed

text \<open>
  The deadline is not measured from loop entry. In the sample run entered late the first
  deadline check returns the timeout error, so that the loop never gets to a second round;
  yet at that check no time has elapsed since loop entry.
\<close>

theorem doHealthchecking_timeout_counterexample:
  "doHealthchecking sample_deployers sample_config sample_late_world =
     Some ([], Some (timeout_exceeded 10))
   \<and> health_at sample_deployers sample_config sample_late_world 1 = None
   \<and> \<not> Timeout sample_config < elapsed_since_entry sample_late_world 0"
proof -
  have t: "health_body sample_deployers sample_config sample_late_world health_init
             = (health_init, Some (timeout_exceeded 10))"
    by (simp add: health_body_def CheckTimeout_def health_init_def sample_late_world_def
          sample_config_def)
  have a: "doHealthchecking sample_deployers sample_config sample_late_world =
     Some ([], Some (timeout_exceeded 10))"
    unfolding doHealthchecking_def health_loop_def
    by (subst for_loop.simps) (simp add: t, simp add: health_init_def)
  have b: "health_at sample_deployers sample_config sample_late_world 1 = None"
    by (simp add: health_at_def t)
  have c: "\<not> Timeout sample_config < elapsed_since_entry sample_late_world 0"
    by (simp add: elapsed_since_entry_def sample_config_def)
  show ?thesis by (rule conjI a b c)+
qed

section \<open>The flows\<close>

text \<open>Two lists of deployers with the same names and probes poll alike.\<close>

lemma launched_map:
  assumes "\<And>x. GetStackName (F x) = GetStackName (G x)"
  shows "launched (map F xs) l = map F (filter (\<lambda>x. \<not> IsStringInArray (GetStackName (G x)) l) xs)"
  by (simp add: launched_def filter_map comp_def assms)

lemma health_body_map:
  assumes n: "\<And>x. GetStackName (F x) = GetStackName (G x)"
    and h: "\<And>x. HealthChecking (F x) = HealthChecking (G x)"
    and c: "clock w' = clock w" and a: "health_arrival w' = health_arrival w"
  shows "health_body (map F xs) config w' = health_body (map G xs) config w"
proof
  fix s
  have l: "launched (map G xs) l = map G (filter (\<lambda>x. \<not> IsStringInArray (GetStackName (G x)) l) xs)"
    for l by (rule launched_map) simp
  show "health_body (map F xs) config w' s = health_body (map G xs) config w s"
    by (simp add: health_body_def launched_map [of F G, OF n] l comp_def n h c a)
qed

lemma clean_body_map:
  assumes n: "\<And>x. GetStackName (F x) = GetStackName (G x)"
    and h: "\<And>x. TerminateChecking (F x) = TerminateChecking (G x)"
    and a: "terminate_arrival w' = terminate_arrival w"
  shows "clean_body (map F xs) config w' = clean_body (map G xs) config w"
proof
  fix s
  have l: "launched (map G xs) l = map G (filter (\<lambda>x. \<not> IsStringInArray (GetStackName (G x)) l) xs)"
    for l by (rule launched_map) simp
  show "clean_body (map F xs) config w' s = clean_body (map G xs) config w s"
    by (simp add: clean_body_def launched_map [of F G, OF n] l comp_def n h a)
qed

lemma getDeployer_assign:
  "getDeployer r (assign_outcomes f w) stack = (getDeployer r w stack)\<lparr>perform := f stack\<rparr>"
  by (simp add: getDeployer_def assign_outcomes_def)

lemma doHealthchecking_assign:
  "doHealthchecking (map (getDeployer r (assign_outcomes f w)) xs) config (assign_outcomes f w)
     = doHealthchecking (map (getDeployer r w) xs) config w"
proof -
  have "health_body (map (getDeployer r (assign_outcomes f w)) xs) config (assign_outcomes f w)
      = health_body (map (getDeployer r w) xs) config w"
    by (rule health_body_map) (simp_all add: getDeployer_assign, simp_all add: assign_outcomes_def)
  then show ?thesis by (simp add: doHealthchecking_def health_loop_def)
qed

lemma cleanChecking_assign:
  "cleanChecking (map (getDeployer r (assign_outcomes f w)) xs) config (assign_outcomes f w)
     = cleanChecking (map (getDeployer r w) xs) config w"
proof -
  have "clean_body (map (getDeployer r (assign_outcomes f w)) xs) config (assign_outcomes f w)
      = clean_body (map (getDeployer r w) xs) config w"
    by (rule clean_body_map) (simp_all add: getDeployer_assign, simp_all add: assign_outcomes_def)
  then show ?thesis by (simp add: cleanChecking_def clean_loop_def)
qed

lemma calls_of_invoke:
  "filter (\<lambda>ev. \<not> is_log ev) (invoke config d a) = [Attempt (GetStackName d) a]"
  by (cases a) (simp_all split: option.splits)

lemma calls_of_phase:
  "filter (\<lambda>ev. \<not> is_log ev) (phase config acts ds)
     = concat (map (\<lambda>d. map (Attempt (GetStackName d)) acts) ds)"
proof -
  have "filter (\<lambda>ev. \<not> is_log ev) (concat (map (invoke config d) acts))
          = map (Attempt (GetStackName d)) acts" for d
    by (induction acts) (simp_all add: calls_of_invoke)
  then show ?thesis
    by (induction ds) (simp_all add: phase_def)
qed

lemma calls_of_phase_assign:
  "filter (\<lambda>ev. \<not> is_log ev) (phase config acts (map (getDeployer r (assign_outcomes f w)) xs))
     = filter (\<lambda>ev. \<not> is_log ev) (phase config acts (map (getDeployer r w) xs))"
  by (simp add: calls_of_phase getDeployer_assign comp_def)

lemma Runner_Deploy_assign:
  "calls_and_verdict (Runner_Deploy r (assign_outcomes f w)) = calls_and_verdict (Runner_Deploy r w)"
proof -
  have w: "GOOS (assign_outcomes f w) = GOOS w" "AskContinue (assign_outcomes f w) = AskContinue w"
    "PrintSummary_err (assign_outcomes f w) = PrintSummary_err w"
    "ValidClient (assign_outcomes f w) = ValidClient w"
    "SendSummaryMessage_err (assign_outcomes f w) = SendSummaryMessage_err w"
    "CheckStorage_err (assign_outcomes f w) = CheckStorage_err w"
    by (simp_all add: assign_outcomes_def)
  have l: "LocalCheck r (assign_outcomes f w) m = LocalCheck r w m" for m
    by (simp add: LocalCheck_def w)
  have sl: "slack_summary r (assign_outcomes f w) = slack_summary r w"
    by (simp add: slack_summary_def w)
  have m: "CheckEnabledMetrics (assign_outcomes f w) = CheckEnabledMetrics w"
    by (simp add: CheckEnabledMetrics_def w)
  show ?thesis
    unfolding calls_and_verdict_def Runner_Deploy_def Let_def l sl m w doHealthchecking_assign
      cleanChecking_assign
    by (simp add: calls_of_phase_assign split: prod.splits option.splits)
qed

lemma attempt_in_phase:
  assumes "d \<in> set ds" and "a \<in> set acts"
  shows "Attempt (GetStackName d) a \<in> set (phase config acts ds)"
proof -
  from assms have "Attempt (GetStackName d) a
      \<in> set (concat (map (\<lambda>d. map (Attempt (GetStackName d)) acts) ds))"
    by auto
  then have "Attempt (GetStackName d) a \<in> set (filter (\<lambda>ev. \<not> is_log ev) (phase config acts ds))"
    by (simp only: calls_of_phase)
  then show ?thesis by simp
qed

lemma Runner_Deploy_complete:
  assumes "Runner_Deploy r w = Some (tr, None)"
    and "stack \<in> set (target_stacks r)" and "a \<in> set deploy_actions"
  shows "Attempt (GetStackName (getDeployer r w stack)) a \<in> set tr"
proof -
  let ?D = "map (getDeployer r w) (target_stacks r)"
  let ?c = "Builder_Config r"
  let ?d = "getDeployer r w stack"
  from assms(2) have d: "?d \<in> set ?D" by simp
  from assms(1) obtain t where tr: "tr = t @ phase ?c [CheckPrevious, Deploy] ?D
      @ fst (the (doHealthchecking ?D ?c w))
      @ phase ?c [FinishAdditionalWork, TriggerLifecycleCallbacks, CleanPreviousVersion] ?D
      @ fst (the (cleanChecking ?D ?c w))
      @ phase ?c [GatherMetrics] ?D @ phase ?c [RunAPITest] ?D"
    by (auto simp: Runner_Deploy_def Let_def split: prod.splits option.splits if_splits)
  from assms(3) consider "a \<in> set [CheckPrevious, Deploy]"
    | "a \<in> set [FinishAdditionalWork, TriggerLifecycleCallbacks, CleanPreviousVersion]"
    | "a \<in> set [GatherMetrics]" | "a \<in> set [RunAPITest]"
    by (auto simp: deploy_actions_def)
  then show ?thesis
  proof cases
    case 1
    from attempt_in_phase [OF d this, of ?c] show ?thesis unfolding tr by simp
  next
    case 2
    from attempt_in_phase [OF d this, of ?c] show ?thesis unfolding tr by simp
  next
    case 3
    from attempt_in_phase [OF d this, of ?c] show ?thesis unfolding tr by simp
  next
    case 4
    from attempt_in_phase [OF d this, of ?c] show ?thesis unfolding tr by simp
  qed
qed

lemma cleanChecking_no_error: "cleanChecking ds config w \<noteq> Some (tr, Some e)"
proof
  assume "cleanChecking ds config w = Some (tr, Some e)"
  then obtain s where l: "for_loop (\<lambda>s. \<not> done_flag s) (clean_body ds config w) clean_init
      = Some (s, Some e)"
    by (auto simp: cleanChecking_def clean_loop_def)
  from for_loop_SomeD [OF l] obtain t where "clean_body ds config w t = (s, Some e)" by auto
  from clean_body_step(1) [OF this] show False by simp
qed

lemma doHealthchecking_error_kinds:
  assumes "doHealthchecking ds config w = Some (th, Some e)"
  shows "e = timeout_exceeded (Timeout config)
         \<or> e = errors_New ''error happened while healthchecking''"
proof -
  from assms obtain s where l: "for_loop (\<lambda>s. \<not> healthy s) (health_body ds config w) health_init
      = Some (s, Some e)"
    by (auto simp: doHealthchecking_def health_loop_def)
  from for_loop_SomeD [OF l] obtain t where "health_body ds config w t = (s, Some e)" by auto
  from health_body_Some [OF this] show ?thesis by blast
qed

lemma LocalCheck_Some:
  "LocalCheck r w m = (t0, Some e) \<Longrightarrow>
     e = errors_New ''you declined to run command'' \<and> t0 = [Prompt m]"
  by (auto simp: LocalCheck_def split: if_splits)

lemma LocalCheck_no_deployer:
  "LocalCheck r w m = (t0, res) \<Longrightarrow> \<forall>ev \<in> set t0. \<not> deployer_event ev"
  by (auto simp: LocalCheck_def split: if_splits)

lemma slack_summary_no_deployer: "\<forall>ev \<in> set (slack_summary r w). \<not> deployer_event ev"
  by (auto simp: slack_summary_def split: option.splits)

lemma Runner_Deploy_verdict:
  assumes "Runner_Deploy r w = Some (tr, Some e)"
  shows "(e = errors_New ''you declined to run command''
            \<and> tr = [Prompt ''Do you really want to deploy this application? ''])
         \<or> ((PrintSummary_err w = Some e
               \<or> (Builder_MetricConfig_Enabled r \<and> CheckStorage_err w = Some e))
             \<and> (\<forall>ev \<in> set tr. \<not> deployer_event ev))
         \<or> ((\<exists>th. doHealthchecking (map (getDeployer r w) (target_stacks r)) (Builder_Config r) w
                      = Some (th, Some e))
             \<and> (e = timeout_exceeded (Timeout (Builder_Config r))
                  \<or> e = errors_New ''error happened while healthchecking''))"
proof -
  let ?m = "''Do you really want to deploy this application? ''"
  let ?D = "map (getDeployer r w) (target_stacks r)"
  obtain t0 r0 where lc: "LocalCheck r w ?m = (t0, r0)" by (cases "LocalCheck r w ?m")
  show ?thesis
  proof (cases r0)
    case (Some e0)
    with assms lc have "e = e0" "tr = t0" by (simp_all add: Runner_Deploy_def)
    with LocalCheck_Some lc Some show ?thesis by blast
  next
    case None
    note r0 = None
    from LocalCheck_no_deployer [OF lc] have n0: "\<forall>ev \<in> set t0. \<not> deployer_event ev" .
    show ?thesis
    proof (cases "PrintSummary_err w")
      case (Some e1)
      with assms lc r0 have "e = e1" "tr = t0 @ [PrintSummary]" by (simp_all add: Runner_Deploy_def)
      with Some n0 show ?thesis by auto
    next
      case None
      note ps = None
      show ?thesis
      proof (cases "Builder_MetricConfig_Enabled r \<and> CheckStorage_err w \<noteq> None")
        case True
        then obtain e2 where e2: "CheckStorage_err w = Some e2" by auto
        with assms lc r0 ps True have "e = e2"
          "tr = t0 @ [PrintSummary] @ slack_summary r w @ [CheckStorage]"
          by (simp_all add: Runner_Deploy_def CheckEnabledMetrics_def)
        with e2 True n0 slack_summary_no_deployer [of r w] show ?thesis by auto
      next
        case False
        with assms lc r0 ps have "\<exists>th. doHealthchecking ?D (Builder_Config r) w = Some (th, Some e)"
          by (auto simp: Runner_Deploy_def CheckEnabledMetrics_def Let_def cleanChecking_no_error
                split: option.splits prod.splits if_splits)
        with doHealthchecking_error_kinds show ?thesis by blast
      qed
    qed
  qed
qed

text \<open>
  C5: the errors of the per-stack operations (CheckPrevious, Deploy, FinishAdditionalWork,
  TriggerLifecycleCallbacks, CleanPreviousVersion, GatherMetrics, RunAPITest) decide
  nothing in the deploy flow. Under any two assignments of outcomes to these operations
  the flow makes the same calls in the same order and returns the same verdict (or runs
  forever under both); only the log differs. So no failure keeps another stack's call of
  the same phase, or any call of a later phase, from being made; and when the flow returns
  \<open>nil\<close>, every one of the seven operations was called on the deployer of every target
  stack. When the flow returns an error, it is the decline of the operator, after the
  prompt alone; or the error of an upfront check (the summary printer, or the metrics
  storage when metrics are enabled), returned before any deployer is built or called; or
  the timeout or sentinel error of health convergence.
\<close>

theorem per_stack_errors_not_fatal:
  "calls_and_verdict (Runner_Deploy r (assign_outcomes f w))
     = calls_and_verdict (Runner_Deploy r (assign_outcomes g w))
   \<and> (Runner_Deploy r w = Some (tr, None) \<longrightarrow>
        (\<forall>stack \<in> set (target_stacks r). \<forall>a \<in> set deploy_actions.
           Attempt (GetStackName (getDeployer r w stack)) a \<in> set tr))
   \<and> (Runner_Deploy r w = Some (tr', Some e) \<longrightarrow>
        (e = errors_New ''you declined to run command''
           \<and> tr' = [Prompt ''Do you really want to deploy this application? ''])
        \<or> ((PrintSummary_err w = Some e
              \<or> (Builder_MetricConfig_Enabled r \<and> CheckStorage_err w = Some e))
            \<and> (\<forall>ev \<in> set tr'. \<not> deployer_event ev))
        \<or> ((\<exists>th. doHealthchecking (map (getDeployer r w) (target_stacks r)) (Builder_Config r) w
                     = Some (th, Some e))
            \<and> (e = timeout_exceeded (Timeout (Builder_Config r))
                 \<or> e = errors_New ''error happened while healthchecking'')))"
proof (intro conjI)
  show "calls_and_verdict (Runner_Deploy r (assign_outcomes f w))
     = calls_and_verdict (Runner_Deploy r (assign_outcomes g w))"
    by (simp only: Runner_Deploy_assign)
  show "Runner_Deploy r w = Some (tr, None) \<longrightarrow>
        (\<forall>stack \<in> set (target_stacks r). \<forall>a \<in> set deploy_actions.
           Attempt (GetStackName (getDeployer r w stack)) a \<in> set tr)"
    using Runner_Deploy_complete by blast
  show "Runner_Deploy r w = Some (tr', Some e) \<longrightarrow>
        (e = errors_New ''you declined to run command''
           \<and> tr' = [Prompt ''Do you really want to deploy this application? ''])
        \<or> ((PrintSummary_err w = Some e
              \<or> (Builder_MetricConfig_Enabled r \<and> CheckStorage_err w = Some e))
            \<and> (\<forall>ev \<in> set tr'. \<not> deployer_event ev))
        \<or> ((\<exists>th. doHealthchecking (map (getDeployer r w) (target_stacks r)) (Builder_Config r) w
                     = Some (th, Some e))
            \<and> (e = timeout_exceeded (Timeout (Builder_Config r))
                 \<or> e = errors_New ''error happened while healthchecking''))"
    by (rule impI) (rule Runner_Deploy_verdict)
qed

lemma reach_invariant:
  assumes "reach cond body k s = Some t" and "I s"
    and "\<And>u u' r. I u \<Longrightarrow> cond u \<Longrightarrow> body u = (u', r) \<Longrightarrow> I u'"
  shows "I t"
  using assms(1)
proof (induction k arbitrary: t)
  case 0
  with assms(2) show ?case by simp
next
  case (Suc k)
  from reach_SucD [OF Suc.prems] obtain u where "reach cond body k s = Some u" "cond u"
    "body u = (t, None)" by blast
  with Suc.IH assms(3) show ?case by blast
qed

lemma for_loop_invariant:
  assumes l: "for_loop cond body s = Some (t, r)" and "I s"
    and step: "\<And>u u' r. I u \<Longrightarrow> cond u \<Longrightarrow> body u = (u', r) \<Longrightarrow> I u'"
  shows "I t"
proof -
  from for_loop_SomeD [OF l] obtain k t0 where at: "reach cond body k s = Some t0"
    and c: "(\<not> cond t0 \<and> (t, r) = (t0, None))
            \<or> (cond t0 \<and> (\<exists>e. snd (t, r) = Some e) \<and> body t0 = (t, r))"
    by blast
  have "I t0" by (rule reach_invariant [where I = I, OF at assms(2) step])
  with c step show ?thesis by auto
qed

lemma doHealthchecking_events:
  assumes "doHealthchecking ds config w = Some (th, res)"
  shows "Inspector_Update n c \<notin> set th"
proof -
  from assms obtain s where l: "for_loop (\<lambda>s. \<not> healthy s) (health_body ds config w) health_init
      = Some (s, res)" and th: "th = h_events s"
    by (auto simp: doHealthchecking_def health_loop_def)
  have "Inspector_Update n c \<notin> set (h_events s)"
  proof (rule for_loop_invariant
      [where I = "\<lambda>s. Inspector_Update n c \<notin> set (h_events s)", OF l])
    show "Inspector_Update n c \<notin> set (h_events health_init)" by (simp add: health_init_def)
  next
    fix u u' r
    assume "Inspector_Update n c \<notin> set (h_events u)" and "health_body ds config w u = (u', r)"
    then show "Inspector_Update n c \<notin> set (h_events u')"
      by (auto simp: health_body_def Let_def split: if_splits prod.splits option.splits)
  qed
  with th show ?thesis by simp
qed

lemma LocalCheck_events: "LocalCheck r w m = (tp, res) \<Longrightarrow> Inspector_Update n c \<notin> set tp"
  by (auto simp: LocalCheck_def split: if_splits)

lemma nullCheck_override:
  "nullCheck input origin = (if 0 \<le>s input then input else origin)"
  by (simp add: nullCheck_def word_sless_alt word_sle_eq)

text \<open>
  C8: in the update flow each field of the new capacity is the override of the
  configuration when that is not negative, and the value fetched from the group otherwise;
  and when the flow applies an update, it is this triple that it applies, to the group it
  fetched.
\<close>

theorem Update_newCapacity:
  "Min_cap (newCapacity config grp)
     = (if 0 \<le>s Min_cfg config then Min_cfg config else MinSize grp)
   \<and> Max_cap (newCapacity config grp)
     = (if 0 \<le>s Max_cfg config then Max_cfg config else MaxSize grp)
   \<and> Desired_cap (newCapacity config grp)
     = (if 0 \<le>s Desired_cfg config then Desired_cfg config else DesiredCapacity grp)
   \<and> (Runner_Update r w = Some (tr, res) \<and> Inspector_Update name c \<in> set tr \<longrightarrow>
        (\<exists>asg g. SelectStack_res w (Application (Builder_Config r)) = Inr asg
           \<and> GetStackInformation_res w asg = Inr g
           \<and> name = AutoScalingGroupName g \<and> c = newCapacity (Builder_Config r) g))"
proof (intro conjI impI)
  show "Min_cap (newCapacity config grp)
     = (if 0 \<le>s Min_cfg config then Min_cfg config else MinSize grp)"
    by (simp add: newCapacity_def oldCapacity_def makeCapacityStruct_def nullCheck_override)
  show "Max_cap (newCapacity config grp)
     = (if 0 \<le>s Max_cfg config then Max_cfg config else MaxSize grp)"
    by (simp add: newCapacity_def oldCapacity_def makeCapacityStruct_def nullCheck_override)
  show "Desired_cap (newCapacity config grp)
     = (if 0 \<le>s Desired_cfg config then Desired_cfg config else DesiredCapacity grp)"
    by (simp add: newCapacity_def oldCapacity_def makeCapacityStruct_def nullCheck_override)
next
  assume a: "Runner_Update r w = Some (tr, res) \<and> Inspector_Update name c \<in> set tr"
  let ?cfg = "Builder_Config r"
  from a have run: "Runner_Update r w = Some (tr, res)" and ev: "Inspector_Update name c \<in> set tr"
    by simp_all
  show "\<exists>asg g. SelectStack_res w (Application ?cfg) = Inr asg
           \<and> GetStackInformation_res w asg = Inr g
           \<and> name = AutoScalingGroupName g \<and> c = newCapacity ?cfg g"
  proof (cases "SelectStack_res w (Application ?cfg)")
    case (Inl e)
    with run ev show ?thesis by (auto simp: Runner_Update_def)
  next
    case (Inr asg)
    show ?thesis
    proof (cases "GetStackInformation_res w asg")
      case (Inl e)
      with run ev Inr show ?thesis by (auto simp: Runner_Update_def)
    next
      case g: (Inr g)
      obtain tp pr where lc: "LocalCheck r w ''Do you really want to update? '' = (tp, pr)"
        by (cases "LocalCheck r w ''Do you really want to update? ''")
      from LocalCheck_events [OF lc] have np: "Inspector_Update name c \<notin> set tp" .
      have "name = AutoScalingGroupName g \<and> c = newCapacity ?cfg g"
        using run ev Inr g lc np
        by (auto simp: Runner_Update_def Let_def
              split: option.splits prod.splits dest: doHealthchecking_events)
      with Inr g show ?thesis by blast
    qed
  qed
qed

text \<open>
  C9: where the prompt is shown (on darwin, without \<open>AutoApply\<close>) and the operator
  declines, each mutating mode returns the decline error, and all it has done by then is
  to ask: deploy and delete have made no other call, update has only selected the stack,
  read the group and validated the capacities. No deployer is built, no lifecycle
  operation is called and no capacity update is applied.
\<close>

theorem decline_aborts_before_mutation:
  assumes "GOOS w = ''darwin''" and "\<not> AutoApply (Builder_Config r)"
  shows "(\<not> AskContinue w ''Do you really want to deploy this application? '' \<longrightarrow>
            Runner_Deploy r w =
              Some ([Prompt ''Do you really want to deploy this application? ''],
                    Some (errors_New ''you declined to run command'')))
       \<and> (\<not> AskContinue w ''Do you really want to delete applications? '' \<longrightarrow>
            Runner_Delete r w =
              Some ([Prompt ''Do you really want to delete applications? ''],
                    Some (errors_New ''you declined to run command'')))
       \<and> (\<not> AskContinue w ''Do you really want to update? ''
            \<and> SelectStack_res w (Application (Builder_Config r)) = Inr asg
            \<and> GetStackInformation_res w asg = Inr g
            \<and> CheckUpdateInformation (oldCapacity g) (newCapacity (Builder_Config r) g) = None \<longrightarrow>
            Runner_Update r w =
              Some ([SelectStack (Application (Builder_Config r)), GetStackInformation asg,
                     Prompt ''Do you really want to update? ''],
                    Some (errors_New ''you declined to run command'')))"
proof (intro conjI impI)
  assume "\<not> AskContinue w ''Do you really want to deploy this application? ''"
  with assms show "Runner_Deploy r w =
              Some ([Prompt ''Do you really want to deploy this application? ''],
                    Some (errors_New ''you declined to run command''))"
    by (simp add: Runner_Deploy_def LocalCheck_def)
next
  assume "\<not> AskContinue w ''Do you really want to delete applications? ''"
  with assms show "Runner_Delete r w =
              Some ([Prompt ''Do you really want to delete applications? ''],
                    Some (errors_New ''you declined to run command''))"
    by (simp add: Runner_Delete_def LocalCheck_def)
next
  assume "\<not> AskContinue w ''Do you really want to update? ''
            \<and> SelectStack_res w (Application (Builder_Config r)) = Inr asg
            \<and> GetStackInformation_res w asg = Inr g
            \<and> CheckUpdateInformation (oldCapacity g) (newCapacity (Builder_Config r) g) = None"
  with assms show "Runner_Update r w =
              Some ([SelectStack (Application (Builder_Config r)), GetStackInformation asg,
                     Prompt ''Do you really want to update? ''],
                    Some (errors_New ''you declined to run command''))"
    by (simp add: Runner_Update_def LocalCheck_def)
qed

theorem decline_aborts_before_mutation_witness:
  "Runner_Deploy sample_runner (sample_world\<lparr>GOOS := ''darwin''\<rparr>) =
     Some ([Prompt ''Do you really want to deploy this application? ''],
           Some (errors_New ''you declined to run command''))
   \<and> Runner_Delete sample_runner (sample_world\<lparr>GOOS := ''darwin''\<rparr>) =
     Some ([Prompt ''Do you really want to delete applications? ''],
           Some (errors_New ''you declined to run command''))
   \<and> Runner_Update sample_runner (sample_world\<lparr>GOOS := ''darwin''\<rparr>) =
     Some ([SelectStack ''app'', GetStackInformation ''asg'',
            Prompt ''Do you really want to update? ''],
           Some (errors_New ''you declined to run command''))"
proof -
  let ?w = "sample_world\<lparr>GOOS := ''darwin''\<rparr>"
  let ?g = "\<lparr>MinSize = 1, MaxSize = 10, DesiredCapacity = 3, AutoScalingGroupName = ''asg-1''\<rparr>"
  have 1: "GOOS ?w = ''darwin''" by simp
  have 2: "\<not> AutoApply (Builder_Config sample_runner)"
    by (simp add: sample_runner_def sample_config_def)
  have 3: "\<not> AskContinue ?w m" for m by (simp add: sample_world_def)
  have 4: "SelectStack_res ?w (Application (Builder_Config sample_runner)) = Inr ''asg''"
    by (simp add: sample_world_def)
  have 5: "GetStackInformation_res ?w ''asg'' = Inr ?g" by (simp add: sample_world_def)
  have 6: "CheckUpdateInformation (oldCapacity ?g) (newCapacity (Builder_Config sample_runner) ?g)
             = None"
    by (simp add: CheckUpdateInformation_def oldCapacity_def newCapacity_def
          makeCapacityStruct_def nullCheck_def sample_runner_def sample_config_def
          word_sless_alt)
  have app: "Application (Builder_Config sample_runner) = ''app''"
    by (simp add: sample_runner_def sample_config_def)
  note T = decline_aborts_before_mutation [OF 1 2, of "''asg''" ?g]
  note a = T [THEN conjunct1, THEN mp, OF 3]
  note b = T [THEN conjunct2, THEN conjunct1, THEN mp, OF 3]
  have c: "Runner_Update sample_runner ?w =
     Some ([SelectStack ''app'', GetStackInformation ''asg'',
            Prompt ''Do you really want to update? ''],
           Some (errors_New ''you declined to run command''))"
    using T [THEN conjunct2, THEN conjunct2, THEN mp, OF conjI [OF 3 conjI [OF 4 conjI [OF 5 6]]]]
    by (simp only: app)
  show ?thesis by (rule conjI a b c)+
qed

theorem Update_newCapacity_witness:
  "Runner_Update sample_runner sample_world =
     Some ([SelectStack ''app'', GetStackInformation ''asg'',
            Inspector_Update ''asg-1'' \<lparr>Min_cap = 1, Max_cap = 10, Desired_cap = 5\<rparr>,
            GenerateStack ''r'', NewDeployer ''gen'', HealthProbe 0 ''gen'', Sleep 1,
            HealthProbe 1 ''gen''], None)
   \<and> (\<exists>asg g. SelectStack_res sample_world (Application (Builder_Config sample_runner)) = Inr asg
           \<and> GetStackInformation_res sample_world asg = Inr g
           \<and> ''asg-1'' = AutoScalingGroupName g
           \<and> \<lparr>Min_cap = 1, Max_cap = 10, Desired_cap = 5\<rparr>
               = newCapacity (Builder_Config sample_runner) g)"
proof -
  let ?tr = "[SelectStack ''app'', GetStackInformation ''asg'',
            Inspector_Update ''asg-1'' \<lparr>Min_cap = 1, Max_cap = 10, Desired_cap = 5\<rparr>,
            GenerateStack ''r'', NewDeployer ''gen'', HealthProbe 0 ''gen'', Sleep 1,
            HealthProbe 1 ''gen'']"
  have run: "Runner_Update sample_runner sample_world = Some (?tr, None)" by code_simp
  have ev: "Inspector_Update ''asg-1'' \<lparr>Min_cap = 1, Max_cap = 10, Desired_cap = 5\<rparr> \<in> set ?tr"
    by simp
  note T = Update_newCapacity [where r = sample_runner and w = sample_world and tr = ?tr
      and res = None and name = "''asg-1''"
      and c = "\<lparr>Min_cap = 1, Max_cap = 10, Desired_cap = 5\<rparr>",
      THEN conjunct2, THEN conjunct2, THEN conjunct2, THEN mp, OF conjI [OF run ev]]
  show ?thesis by (rule conjI run T)+
qed

theorem per_stack_errors_not_fatal_witness:
  "calls_and_verdict
     (Runner_Deploy sample_runner
        (assign_outcomes (\<lambda>stack a config. Some (external ''boom'')) sample_world))
     = calls_and_verdict
         (Runner_Deploy sample_runner (assign_outcomes (\<lambda>stack a config. None) sample_world))
   \<and> Runner_Deploy sample_runner sample_world =
     Some ([PrintSummary, CheckStorage, NewDeployer ''A'', NewDeployer ''B'',
            Attempt ''A'' CheckPrevious, Attempt ''A'' Deploy,
            Attempt ''B'' CheckPrevious, Attempt ''B'' Deploy, HealthProbe 0 ''A'',
            HealthProbe 0 ''B'', Sleep 1, HealthProbe 1 ''A'', HealthProbe 1 ''B'',
            Attempt ''A'' FinishAdditionalWork, Attempt ''A'' TriggerLifecycleCallbacks,
            Attempt ''A'' CleanPreviousVersion, Attempt ''B'' FinishAdditionalWork,
            Attempt ''B'' TriggerLifecycleCallbacks, Attempt ''B'' CleanPreviousVersion,
            TerminateProbe 0 ''A'', TerminateProbe 0 ''B'', Sleep 1, TerminateProbe 1 ''A'',
            TerminateProbe 1 ''B'', Sleep 1, TerminateProbe 2 ''A'', TerminateProbe 2 ''B'',
            Attempt ''A'' GatherMetrics, Attempt ''B'' GatherMetrics,
            Attempt ''A'' RunAPITest, Attempt ''B'' RunAPITest], None)
   \<and> Attempt (GetStackName (getDeployer sample_runner sample_world (sample_stack ''B'')))
         RunAPITest
       \<in> set [PrintSummary, CheckStorage, NewDeployer ''A'', NewDeployer ''B'',
            Attempt ''A'' CheckPrevious, Attempt ''A'' Deploy,
            Attempt ''B'' CheckPrevious, Attempt ''B'' Deploy, HealthProbe 0 ''A'',
            HealthProbe 0 ''B'', Sleep 1, HealthProbe 1 ''A'', HealthProbe 1 ''B'',
            Attempt ''A'' FinishAdditionalWork, Attempt ''A'' TriggerLifecycleCallbacks,
            Attempt ''A'' CleanPreviousVersion, Attempt ''B'' FinishAdditionalWork,
            Attempt ''B'' TriggerLifecycleCallbacks, Attempt ''B'' CleanPreviousVersion,
            TerminateProbe 0 ''A'', TerminateProbe 0 ''B'', Sleep 1, TerminateProbe 1 ''A'',
            TerminateProbe 1 ''B'', Sleep 1, TerminateProbe 2 ''A'', TerminateProbe 2 ''B'',
            Attempt ''A'' GatherMetrics, Attempt ''B'' GatherMetrics,
            Attempt ''A'' RunAPITest, Attempt ''B'' RunAPITest]
   \<and> Runner_Deploy sample_runner (sample_world\<lparr>PrintSummary_err := Some (external ''summary'')\<rparr>)
       = Some ([PrintSummary], Some (external ''summary''))
   \<and> ((external ''summary'' = errors_New ''you declined to run command''
          \<and> [PrintSummary] = [Prompt ''Do you really want to deploy this application? ''])
        \<or> ((PrintSummary_err (sample_world\<lparr>PrintSummary_err := Some (external ''summary'')\<rparr>)
                = Some (external ''summary'')
              \<or> (Builder_MetricConfig_Enabled sample_runner
                   \<and> CheckStorage_err (sample_world\<lparr>PrintSummary_err := Some (external ''summary'')\<rparr>)
                       = Some (external ''summary'')))
            \<and> (\<forall>ev \<in> set [PrintSummary]. \<not> deployer_event ev))
        \<or> ((\<exists>th. doHealthchecking
                     (map (getDeployer sample_runner
                             (sample_world\<lparr>PrintSummary_err := Some (external ''summary'')\<rparr>))
                        (target_stacks sample_runner))
                     (Builder_Config sample_runner)
                     (sample_world\<lparr>PrintSummary_err := Some (external ''summary'')\<rparr>)
                     = Some (th, Some (external ''summary'')))
            \<and> (external ''summary'' = timeout_exceeded (Timeout (Builder_Config sample_runner))
                 \<or> external ''summary'' = errors_New ''error happened while healthchecking'')))"
proof -
  let ?tr = "[PrintSummary, CheckStorage, NewDeployer ''A'', NewDeployer ''B'',
            Attempt ''A'' CheckPrevious, Attempt ''A'' Deploy,
            Attempt ''B'' CheckPrevious, Attempt ''B'' Deploy, HealthProbe 0 ''A'',
            HealthProbe 0 ''B'', Sleep 1, HealthProbe 1 ''A'', HealthProbe 1 ''B'',
            Attempt ''A'' FinishAdditionalWork, Attempt ''A'' TriggerLifecycleCallbacks,
            Attempt ''A'' CleanPreviousVersion, Attempt ''B'' FinishAdditionalWork,
            Attempt ''B'' TriggerLifecycleCallbacks, Attempt ''B'' CleanPreviousVersion,
            TerminateProbe 0 ''A'', TerminateProbe 0 ''B'', Sleep 1, TerminateProbe 1 ''A'',
            TerminateProbe 1 ''B'', Sleep 1, TerminateProbe 2 ''A'', TerminateProbe 2 ''B'',
            Attempt ''A'' GatherMetrics, Attempt ''B'' GatherMetrics,
            Attempt ''A'' RunAPITest, Attempt ''B'' RunAPITest]"
  have run: "Runner_Deploy sample_runner sample_world = Some (?tr, None)" by code_simp
  have st: "sample_stack ''B'' \<in> set (target_stacks sample_runner)"
    by (simp add: target_stacks_def sample_runner_def sample_config_def sample_stack_def)
  have ac: "RunAPITest \<in> set deploy_actions" by (simp add: deploy_actions_def)
  note T = per_stack_errors_not_fatal [where r = sample_runner and w = sample_world
      and f = "\<lambda>stack a config. Some (external ''boom'')" and g = "\<lambda>stack a config. None"
      and tr = ?tr]
  note a = T [THEN conjunct1]
  note b = T [THEN conjunct2, THEN conjunct1, THEN mp, OF run, THEN bspec, OF st, THEN bspec,
      OF ac]
  let ?w = "sample_world\<lparr>PrintSummary_err := Some (external ''summary'')\<rparr>"
  have fail: "Runner_Deploy sample_runner ?w = Some ([PrintSummary], Some (external ''summary''))"
    by (simp add: Runner_Deploy_def LocalCheck_def sample_world_def)
  note c = per_stack_errors_not_fatal [where r = sample_runner and w = ?w
      and tr' = "[PrintSummary]" and e = "external ''summary''",
      THEN conjunct2, THEN conjunct2, THEN mp, OF fail]
  show ?thesis by (rule conjI a run b fail c)+
qed

end
